theory Spec2Isabelle
  imports Main "HOL-Library.Sublist"
begin

section \<open>Text, as Python sees it\<close>


text \<open>
  The script \<^verbatim>\<open>backend/fix_exchanges_imports.py\<close> reads TypeScript sources as UTF-8
  text, rewrites import statements with four regular expressions and three literal
  patches, and writes the result back.

  A text is a \<^typ>\<open>string\<close>: the list of the UTF-8 code units of the Python \<^verbatim>\<open>str\<close>.
  Every literal character of the four patterns and of the three patches is ASCII, and the
  only character sets used are \<^verbatim>\<open>.\<close> (anything but a line feed) and \<^verbatim>\<open>[^}]\<close>
  (anything but a closing brace), both under a repetition that consumes any number of
  characters. A code point beyond ASCII is a run of code units none of which is a line
  feed or a brace, so matching over code units finds the same matches, at the same
  places, as matching over code points.

  Python's \<^verbatim>\<open>x in s\<close> on strings is \<^const>\<open>sublist\<close>: \<open>x\<close> occurs in \<open>s\<close> as a
  contiguous block.
\<close>

text \<open>
  \<^verbatim>\<open>s.replace(old, new)\<close>: every occurrence of \<open>old\<close>, found from the left and not
  overlapping an earlier one, is replaced. For an empty \<open>old\<close> Python puts \<open>new\<close>
  before every character and at the end.
\<close>

fun str_replace :: "string \<Rightarrow> string \<Rightarrow> string \<Rightarrow> string" where
  "str_replace old new [] = (if old = [] then new else [])"
| "str_replace old new (c # cs) =
     (if old = [] then new @ c # str_replace old new cs
      else if prefix old (c # cs) then new @ str_replace old new (drop (length old) (c # cs))
      else c # str_replace old new cs)"

text \<open>
  \<^verbatim>\<open>os.path.basename\<close> on a POSIX path: what follows the last slash.
\<close>

definition basename :: "string \<Rightarrow> string" where
  "basename p = rev (takeWhile (\<lambda>c. c \<noteq> CHR ''/'') (rev p))"

text \<open>
  \<^verbatim>\<open>str(n)\<close> for the counter of \<^verbatim>\<open>main\<close>, a natural number: its decimal digits.
\<close>

fun str_nat :: "nat \<Rightarrow> string" where
  "str_nat n =
     (if n < 10 then [char_of (48 + n)]
      else str_nat (n div 10) @ [char_of (48 + n mod 10)])"

declare str_nat.simps [simp del]

section \<open>The regular expressions of \<^verbatim>\<open>re.sub\<close>\<close>


text \<open>
  The four patterns are sequences of three kinds of item: literal text, a greedy
  repetition (\<^verbatim>\<open>*\<close> or \<^verbatim>\<open>+\<close>) of a character set, and a capturing group around
  such an item.
\<close>

datatype cset =
    AnyChar         \<comment> \<open>\<^verbatim>\<open>.\<close> without DOTALL: any character but the line feed\<close>
  | NoneOf char     \<comment> \<open>\<^verbatim>\<open>[^c]\<close>: any character but \<open>c\<close>, the line feed included\<close>

fun accepts :: "cset \<Rightarrow> char \<Rightarrow> bool" where
  "accepts AnyChar c = (c \<noteq> CHR 0x0A)"
| "accepts (NoneOf d) c = (c \<noteq> d)"

datatype item =
    Lit string      \<comment> \<open>literal characters\<close>
  | Many cset       \<comment> \<open>\<^verbatim>\<open>X*\<close>, greedy\<close>
  | Many1 cset      \<comment> \<open>\<^verbatim>\<open>X+\<close>, greedy\<close>
  | Grp item        \<comment> \<open>\<^verbatim>\<open>(...)\<close>, capturing\<close>

type_synonym regex = "item list"

text \<open>
  The lengths an item can consume at the head of a text, in the order in which the
  backtracking matcher tries them: a greedy repetition takes the longest run first and
  gives characters back one at a time.
\<close>

fun item_lens :: "item \<Rightarrow> string \<Rightarrow> nat list" where
  "item_lens (Lit l) s = (if prefix l s then [length l] else [])"
| "item_lens (Many cs) s = rev [0 ..< Suc (length (takeWhile (accepts cs) s))]"
| "item_lens (Many1 cs) s = rev [1 ..< Suc (length (takeWhile (accepts cs) s))]"
| "item_lens (Grp it) s = item_lens it s"

fun is_group :: "item \<Rightarrow> bool" where
  "is_group (Grp it) = True"
| "is_group it = False"

fun first_some :: "('a \<Rightarrow> 'b option) \<Rightarrow> 'a list \<Rightarrow> 'b option" where
  "first_some f [] = None"
| "first_some f (x # xs) = (case f x of Some y \<Rightarrow> Some y | None \<Rightarrow> first_some f xs)"

text \<open>
  \<open>rx_match p s\<close> is \<^verbatim>\<open>pattern.match\<close> at the head of \<open>s\<close>: the length of the match
  the backtracking matcher finds first, and the texts of its groups in order.
\<close>

primrec rx_match :: "regex \<Rightarrow> string \<Rightarrow> (nat \<times> string list) option" where
  "rx_match [] = (\<lambda>s. Some (0, []))"
| "rx_match (it # its) = (\<lambda>s.
     first_some
       (\<lambda>k. case rx_match its (drop k s) of
              None \<Rightarrow> None
            | Some (n, groups) \<Rightarrow> Some (k + n, (if is_group it then [take k s] else []) @ groups))
       (item_lens it s))"

text \<open>
  A replacement template is literal text and group references (\<^verbatim>\<open>\1\<close>); the escape
  \<^verbatim>\<open>\n\<close> of a template is a line feed.
\<close>

datatype tpart = TLit string | TGroup nat

fun expand :: "tpart list \<Rightarrow> string list \<Rightarrow> string" where
  "expand [] groups = []"
| "expand (TLit l # ts) groups = l @ expand ts groups"
| "expand (TGroup i # ts) groups = (groups ! (i - 1)) @ expand ts groups"

lemma first_some_SomeD: "first_some f ks = Some r \<Longrightarrow> \<exists>k \<in> set ks. f k = Some r"
  by (induction ks) (auto split: option.splits)

lemma item_lens_le: "k \<in> set (item_lens it s) \<Longrightarrow> k \<le> length s"
proof (induction it)
  case (Lit l)
  then show ?case by (auto simp: prefix_def split: if_splits)
next
  case (Many cs)
  have "length (takeWhile (accepts cs) s) \<le> length s" by (rule length_takeWhile_le)
  with Many show ?case by auto
next
  case (Many1 cs)
  have "length (takeWhile (accepts cs) s) \<le> length s" by (rule length_takeWhile_le)
  with Many1 show ?case by auto
next
  case (Grp it)
  then show ?case by simp
qed

lemma rx_match_le: "rx_match p s = Some (n, groups) \<Longrightarrow> n \<le> length s"
proof (induction p arbitrary: s n groups)
  case Nil
  then show ?case by simp
next
  case (Cons it its)
  from Cons.prems obtain k where k: "k \<in> set (item_lens it s)"
    and r: "(case rx_match its (drop k s) of
              None \<Rightarrow> None
            | Some (n, groups) \<Rightarrow> Some (k + n, (if is_group it then [take k s] else []) @ groups))
            = Some (n, groups)"
    by (auto dest: first_some_SomeD)
  from r obtain m gs where m: "rx_match its (drop k s) = Some (m, gs)" and n: "n = k + m"
    by (auto split: option.splits)
  from Cons.IH [OF m] have "m \<le> length s - k" by simp
  moreover from k have "k \<le> length s" by (rule item_lens_le)
  ultimately show ?case using n by simp
qed

text \<open>
  \<^verbatim>\<open>re.sub(pattern, repl, string)\<close>: scanning from the left, the first position at
  which the pattern matches is replaced by the expanded template and the scan goes on
  behind the match; a character at which nothing matches is copied. After an empty match
  Python copies one character and goes on (none of the four patterns can match the empty
  text, each starts with a literal).
\<close>

function re_sub :: "regex \<Rightarrow> tpart list \<Rightarrow> string \<Rightarrow> string" where
  "re_sub p t s =
     (case rx_match p s of
        Some (n, groups) \<Rightarrow>
          if 0 < n then expand t groups @ re_sub p t (drop n s)
          else expand t groups @ (case s of [] \<Rightarrow> [] | c # cs \<Rightarrow> c # re_sub p t cs)
      | None \<Rightarrow> (case s of [] \<Rightarrow> [] | c # cs \<Rightarrow> c # re_sub p t cs))"
  by pat_completeness auto

termination
proof (relation "measure (\<lambda>(p, t, s). length s)")
  fix p :: regex and t :: "tpart list" and s :: string and x2 n groups
  assume "rx_match p s = Some x2" and "(n, groups) = x2" and "0 < n"
  then have "n \<le> length s" by (auto dest: rx_match_le)
  with \<open>0 < n\<close> show "((p, t, drop n s), (p, t, s)) \<in> measure (\<lambda>(p, t, s). length s)"
    by simp
qed auto

declare re_sub.simps [simp del]

section \<open>The files and the console\<close>


text \<open>
  The script touches the world through \<^verbatim>\<open>os.path.exists\<close>, \<^verbatim>\<open>open\<close> and
  \<^verbatim>\<open>print\<close>. The state is the content of every regular file (the stored code units of
  a UTF-8 text), the list of the write operations performed so far, and the lines
  printed so far. Faults of the operating system (a file that cannot be read, decoded or
  written) are not part of the model.
\<close>

record world =
  files :: "string \<rightharpoonup> string"
  writes :: "(string \<times> string) list"
  console :: "string list"

definition py_print :: "string \<Rightarrow> world \<Rightarrow> world" where
  "py_print line w = w\<lparr>console := console w @ [line]\<rparr>"

text \<open>
  \<^verbatim>\<open>open(path, 'r', encoding='utf-8')\<close> leaves \<^verbatim>\<open>newline\<close> at its default, so
  \<^verbatim>\<open>read()\<close> returns the text with every line end (CR LF, a lone CR, LF) turned into
  a line feed.
\<close>

fun universal_newlines :: "string \<Rightarrow> string" where
  "universal_newlines [] = []"
| "universal_newlines [c] = (if c = CHR 0x0D then [CHR 0x0A] else [c])"
| "universal_newlines (c # d # cs) =
     (if c = CHR 0x0D \<and> d = CHR 0x0A then CHR 0x0A # universal_newlines cs
      else if c = CHR 0x0D then CHR 0x0A # universal_newlines (d # cs)
      else c # universal_newlines (d # cs))"

definition read_text :: "string \<Rightarrow> world \<Rightarrow> string option" where
  "read_text path w = map_option universal_newlines (files w path)"

text \<open>
  \<^verbatim>\<open>open(path, 'w', encoding='utf-8')\<close> followed by \<^verbatim>\<open>write(content)\<close> creates or
  truncates the file. On writing, a line feed becomes the line separator of the platform;
  the paths of the script are those of a macOS home directory, where that is the line
  feed itself, so the text is stored as it is.
\<close>

definition write_text :: "string \<Rightarrow> string \<Rightarrow> world \<Rightarrow> world" where
  "write_text path content w =
     w\<lparr>files := (files w)(path \<mapsto> content), writes := writes w @ [(path, content)]\<rparr>"

definition warning_sign :: string where
  "warning_sign = [CHR 0xE2, CHR 0x9A, CHR 0xA0, CHR 0xEF, CHR 0xB8, CHR 0x8F]"

definition check_mark :: string where
  "check_mark = [CHR 0xE2, CHR 0x9C, CHR 0x85]"

definition info_sign :: string where
  "info_sign = [CHR 0xE2, CHR 0x84, CHR 0xB9, CHR 0xEF, CHR 0xB8, CHR 0x8F]"

section \<open>\<^verbatim>\<open>fix_file\<close>\<close>


text \<open>
  Pattern 1, \<^verbatim>\<open>import \{ ([^}]+) \} from '@/modules/exchanges';\<close>, and its template.
\<close>

definition pattern1 :: regex where
  "pattern1 =
     [Lit ''import { '', Grp (Many1 (NoneOf CHR ''}'')), Lit '' } from '@/modules/exchanges';'']"

definition template1 :: "tpart list" where
  "template1 =
     [TLit ''// Module not yet implemented\<newline>// import { '', TGroup 1,
      TLit '' } from '@/modules/exchanges';'']"

text \<open>
  Pattern 2, \<^verbatim>\<open>import type \{ ([^}]+) \} from '@/modules/exchanges';\<close>.
\<close>

definition pattern2 :: regex where
  "pattern2 =
     [Lit ''import type { '', Grp (Many1 (NoneOf CHR ''}'')),
      Lit '' } from '@/modules/exchanges';'']"

definition template2 :: "tpart list" where
  "template2 =
     [TLit ''// Module not yet implemented\<newline>// import type { '', TGroup 1,
      TLit '' } from '@/modules/exchanges';'']"

text \<open>
  Pattern 3,
  \<^verbatim>\<open>import \{ ExchangeService \} from '\.\..*exchanges/services/exchange\.service';\<close>.
  Its template has no group reference.
\<close>

definition pattern3 :: regex where
  "pattern3 =
     [Lit ''import { ExchangeService } from '..'', Many AnyChar,
      Lit ''exchanges/services/exchange.service';'']"

definition template3 :: "tpart list" where
  "template3 =
     [TLit ''// Module not yet implemented\<newline>// import { ExchangeService } from '../../exchanges/services/exchange.service';'']"

text \<open>
  Pattern 4,
  \<^verbatim>\<open>import \{ exchangeConnections \} from '\.\..*exchanges/schema/exchanges\.schema';\<close>.
\<close>

definition pattern4 :: regex where
  "pattern4 =
     [Lit ''import { exchangeConnections } from '..'', Many AnyChar,
      Lit ''exchanges/schema/exchanges.schema';'']"

definition template4 :: "tpart list" where
  "template4 =
     [TLit ''// Module not yet implemented\<newline>// import { exchangeConnections } from '../../exchanges/schema/exchanges.schema';'']"

text \<open>The four substitutions, each applied to the result of the one before.\<close>

definition substitutions :: "string \<Rightarrow> string" where
  "substitutions content =
     re_sub pattern4 template4
       (re_sub pattern3 template3
         (re_sub pattern2 template2
           (re_sub pattern1 template1 content)))"

definition fix_file :: "string \<Rightarrow> world \<Rightarrow> bool \<times> world" where
  "fix_file filepath w =
     (let w1 = py_print (''Fixing '' @ basename filepath @ ''...'') w in
      case read_text filepath w1 of
        None \<Rightarrow>
          (False, py_print (''  '' @ warning_sign @ ''  File not found: '' @ filepath) w1)
      | Some original_content \<Rightarrow>
          let content = substitutions original_content in
          if content \<noteq> original_content then
            let w2 = write_text (filepath @ ''.bak'') original_content w1;
                w3 = write_text filepath content w2
            in (True,
                py_print (''  '' @ check_mark @ '' Fixed and backed up to '' @ basename filepath
                          @ ''.bak'') w3)
          else (False, py_print (''  '' @ info_sign @ ''  No changes needed'') w1))"

section \<open>\<^verbatim>\<open>fix_special_cases\<close>\<close>


definition manager_path :: string where
  "manager_path =
     ''/Users/myminimac/Desenvolvimento/BotCriptoFy2/backend/src/modules/market-data/websocket/market-data-websocket-manager.ts''"

definition pipeline_path :: string where
  "pipeline_path =
     ''/Users/myminimac/Desenvolvimento/BotCriptoFy2/backend/src/modules/market-data/websocket/pipeline.ts''"

text \<open>Fix 1: the types import of the manager gains two names.\<close>

definition types_import_old :: string where
  "types_import_old =
     ''import type { IExchangeAdapter, SubscriptionRequest, ConnectionStatus, OrderBook, Trade, Ticker, Candle, ExchangeEventName, ExchangeEventListener, ConnectionMetrics } from './types';''"

definition types_import_new :: string where
  "types_import_new =
     ''import type { IExchangeAdapter, SubscriptionRequest, ConnectionStatus, OrderBook, Trade, Ticker, Candle, ExchangeEventName, ExchangeEventListener, ConnectionMetrics, ConnectionConfig, ExchangeId } from './types';''"

definition fix1 :: "world \<Rightarrow> world" where
  "fix1 w =
     (case read_text manager_path w of
        None \<Rightarrow> w
      | Some content \<Rightarrow>
          if sublist ''import type { IExchangeAdapter'' content
             \<and> \<not> sublist ''ConnectionConfig, ExchangeId'' content
          then
            py_print (''  '' @ check_mark @ '' Added ConnectionConfig and ExchangeId to ''
                      @ basename manager_path @ '' types import'')
              (write_text manager_path
                 (str_replace types_import_old types_import_new content) w)
          else w)"

text \<open>Fix 2: the pipeline gains a stub behind its commented import.\<close>

definition stub_marker :: string where
  "stub_marker = ''// import { getDefaultWebSocketConfig } from '@/modules/exchanges';''"

definition stub_text :: string where
  "stub_text =
     ''// import { getDefaultWebSocketConfig } from '@/modules/exchanges';\<newline>\<newline>// Temporary stub until exchanges module is implemented\<newline>function getDefaultWebSocketConfig(exchangeId: ExchangeId): ConnectionConfig {\<newline>  throw new Error(`Exchanges module not yet implemented. Cannot get config for ${exchangeId}`);\<newline>}''"

definition fix2 :: "world \<Rightarrow> world" where
  "fix2 w =
     (case read_text pipeline_path w of
        None \<Rightarrow> w
      | Some content \<Rightarrow>
          if sublist stub_marker content
             \<and> \<not> sublist ''function getDefaultWebSocketConfig'' content
          then
            py_print (''  '' @ check_mark @ '' Added stub function to '' @ basename pipeline_path)
              (write_text pipeline_path (str_replace stub_marker stub_text content) w)
          else w)"

text \<open>Fix 3: the call of the manager's \<^verbatim>\<open>createAdapter\<close> becomes a comment.\<close>

definition adapter_call :: string where
  "adapter_call = ''return createWebSocketAdapter(exchangeId, config);''"

definition adapter_old :: string where
  "adapter_old =
     ''  private createAdapter(exchangeId: ExchangeId, config: ConnectionConfig): IExchangeAdapter {\<newline>    // Delegate creation to exchanges module to centralize exchange connectivity\<newline>    return createWebSocketAdapter(exchangeId, config);''"

definition adapter_new :: string where
  "adapter_new =
     ''  private createAdapter(exchangeId: ExchangeId, config: ConnectionConfig): IExchangeAdapter {\<newline>    // Delegate creation to exchanges module to centralize exchange connectivity\<newline>    // Module not yet implemented\<newline>    throw new Error(`Exchanges module not yet implemented. Cannot create adapter for ${exchangeId}`);\<newline>    // return createWebSocketAdapter(exchangeId, config);''"

definition fix3 :: "world \<Rightarrow> world" where
  "fix3 w =
     (case read_text manager_path w of
        None \<Rightarrow> w
      | Some content \<Rightarrow>
          if sublist adapter_call content
          then
            py_print (''  '' @ check_mark @ '' Commented out createWebSocketAdapter usage in ''
                      @ basename manager_path)
              (write_text manager_path (str_replace adapter_old adapter_new content) w)
          else w)"

definition fix_special_cases :: "world \<Rightarrow> world" where
  "fix_special_cases w = fix3 (fix2 (fix1 w))"

section \<open>\<^verbatim>\<open>main\<close>\<close>


definition FILES_TO_FIX :: "string list" where
  "FILES_TO_FIX =
     [''/Users/myminimac/Desenvolvimento/BotCriptoFy2/backend/src/modules/market-data/websocket/market-data-websocket-manager.ts'',
      ''/Users/myminimac/Desenvolvimento/BotCriptoFy2/backend/src/modules/market-data/websocket/pipeline.ts'',
      ''/Users/myminimac/Desenvolvimento/BotCriptoFy2/backend/src/modules/market-data/websocket/websocket-manager.ts'',
      ''/Users/myminimac/Desenvolvimento/BotCriptoFy2/backend/src/modules/market-data/services/orderbook.service.ts'',
      ''/Users/myminimac/Desenvolvimento/BotCriptoFy2/backend/src/modules/market-data/services/ohlcv.service.ts'',
      ''/Users/myminimac/Desenvolvimento/BotCriptoFy2/backend/src/modules/market-data/services/trades.service.ts'',
      ''/Users/myminimac/Desenvolvimento/BotCriptoFy2/backend/src/modules/market-data/services/ticker.service.ts'',
      ''/Users/myminimac/Desenvolvimento/BotCriptoFy2/backend/src/modules/order-book/services/order-book-snapshot.service.ts'',
      ''/Users/myminimac/Desenvolvimento/BotCriptoFy2/backend/src/modules/social-trading/services/copy-trading.service.ts'',
      ''/Users/myminimac/Desenvolvimento/BotCriptoFy2/backend/src/modules/orders/services/position.service.ts'',
      ''/Users/myminimac/Desenvolvimento/BotCriptoFy2/backend/src/modules/orders/services/order.service.ts'']"

text \<open>
  The loop of \<^verbatim>\<open>main\<close> over a list of paths, with its counter.
\<close>

fun fix_all :: "string list \<Rightarrow> nat \<Rightarrow> world \<Rightarrow> nat \<times> world" where
  "fix_all [] fixed_count w = (fixed_count, w)"
| "fix_all (filepath # rest) fixed_count w =
     (case fix_file filepath w of
        (True, w') \<Rightarrow> fix_all rest (fixed_count + 1) w'
      | (False, w') \<Rightarrow> fix_all rest fixed_count w')"

definition rule_line :: string where
  "rule_line = replicate 60 CHR ''=''"

definition main :: "world \<Rightarrow> world" where
  "main w =
     (let w1 = py_print [] (py_print rule_line
                 (py_print ''Fixing exchanges module imports'' (py_print rule_line w)));
          (fixed_count, w2) = fix_all FILES_TO_FIX 0 w1;
          w3 = py_print ''Fixing special cases...'' (py_print [] w2);
          w4 = fix_special_cases w3;
          w5 = py_print [] w4
      in py_print rule_line
           (py_print ''Backup files created with .bak extension''
             (py_print (check_mark @ '' Fixed '' @ str_nat fixed_count @ '' files'')
               (py_print rule_line w5))))"

section \<open>Vocabulary of the properties\<close>

text \<open>
  The definitions of this section are not part of the script. They name what the
  properties below talk about.
\<close>

text \<open>
  \<open>re_search p s\<close>: the pattern matches somewhere in \<open>s\<close> (Python's
  \<^verbatim>\<open>re.search(p, s) is not None\<close>).
\<close>

fun re_search :: "regex \<Rightarrow> string \<Rightarrow> bool" where
  "re_search p [] = (rx_match p [] \<noteq> None)"
| "re_search p (c # cs) = (rx_match p (c # cs) \<noteq> None \<or> re_search p cs)"

text \<open>
  A world with one file, nothing written and nothing printed yet; and the world whose only
  file is the manager source, holding just the text that Fix 3 replaces.
\<close>

definition one_file :: "string \<Rightarrow> string \<Rightarrow> world" where
  "one_file path content = \<lparr>files = [path \<mapsto> content], writes = [], console = []\<rparr>"

definition manager_demo :: world where
  "manager_demo = one_file manager_path adapter_old"

text \<open>
  \<open>needs_fix fs p\<close>: the file \<open>p\<close> exists in \<open>fs\<close> and the four substitutions change the
  text read from it. \<open>report fs p\<close>: the two lines \<^verbatim>\<open>fix_file\<close> prints for \<open>p\<close>.
\<close>

definition needs_fix :: "(string \<rightharpoonup> string) \<Rightarrow> string \<Rightarrow> bool" where
  "needs_fix fs p =
     (case fs p of
        None \<Rightarrow> False
      | Some raw \<Rightarrow> substitutions (universal_newlines raw) \<noteq> universal_newlines raw)"

definition report :: "(string \<rightharpoonup> string) \<Rightarrow> string \<Rightarrow> string list" where
  "report fs p =
     [''Fixing '' @ basename p @ ''...'',
      (case fs p of
         None \<Rightarrow> ''  '' @ warning_sign @ ''  File not found: '' @ p
       | Some raw \<Rightarrow>
           if needs_fix fs p
           then ''  '' @ check_mark @ '' Fixed and backed up to '' @ basename p @ ''.bak''
           else ''  '' @ info_sign @ ''  No changes needed'')]"

text \<open>
The line Fix 3 prints when it has written the manager file.
\<close>

definition fix3_message :: string where
  "fix3_message = ''  '' @ check_mark @ '' Commented out createWebSocketAdapter usage in '' @ basename manager_path"

text \<open>
The number of line feeds in a text.
\<close>

definition line_feeds :: "string \<Rightarrow> nat" where
  "line_feeds s = length (filter (\<lambda>c. c = CHR 0x0A) s)"

text \<open>
  \<open>apart y n\<close>: no non-empty end piece of \<open>y\<close> is a beginning of \<open>n\<close> or has \<open>n\<close> as
  its beginning. Then an occurrence of \<open>n\<close> cannot start inside \<open>y\<close>, whatever text follows
  \<open>y\<close>.
\<close>

fun apart :: "string \<Rightarrow> string \<Rightarrow> bool" where
  "apart [] n = True"
| "apart (c # cs) n = (\<not> prefix (c # cs) n \<and> \<not> prefix n (c # cs) \<and> apart cs n)"

text \<open>
  The conditions under which the three fixes write, and a fix seen as a function on the
  text it read (\<open>text_patch\<close>) and on the stored content of its file (\<open>raw_patch\<close>: the file
  is left as stored when the condition fails, and holds the patched text otherwise).
\<close>

definition guard1 :: "string \<Rightarrow> bool" where
  "guard1 c = (sublist ''import type { IExchangeAdapter'' c \<and> \<not> sublist ''ConnectionConfig, ExchangeId'' c)"

definition guard2 :: "string \<Rightarrow> bool" where
  "guard2 c = (sublist stub_marker c \<and> \<not> sublist ''function getDefaultWebSocketConfig'' c)"

definition guard3 :: "string \<Rightarrow> bool" where
  "guard3 c = sublist adapter_call c"

definition text_patch :: "(string \<Rightarrow> bool) \<Rightarrow> string \<Rightarrow> string \<Rightarrow> string \<Rightarrow> string" where
  "text_patch guard old new c = (if guard c then str_replace old new c else c)"

definition raw_patch :: "(string \<Rightarrow> bool) \<Rightarrow> string \<Rightarrow> string \<Rightarrow> string \<Rightarrow> string" where
  "raw_patch guard old new raw =
     (if guard (universal_newlines raw) then str_replace old new (universal_newlines raw) else raw)"

abbreviation text_fix1 :: "string \<Rightarrow> string" where
  "text_fix1 \<equiv> text_patch guard1 types_import_old types_import_new"

abbreviation text_fix2 :: "string \<Rightarrow> string" where
  "text_fix2 \<equiv> text_patch guard2 stub_marker stub_text"

abbreviation text_fix3 :: "string \<Rightarrow> string" where
  "text_fix3 \<equiv> text_patch guard3 adapter_old adapter_new"

abbreviation raw_fix1 :: "string \<Rightarrow> string" where
  "raw_fix1 \<equiv> raw_patch guard1 types_import_old types_import_new"

abbreviation raw_fix2 :: "string \<Rightarrow> string" where
  "raw_fix2 \<equiv> raw_patch guard2 stub_marker stub_text"

abbreviation raw_fix3 :: "string \<Rightarrow> string" where
  "raw_fix3 \<equiv> raw_patch guard3 adapter_old adapter_new"

text \<open>
  What one run of \<^verbatim>\<open>fix_special_cases\<close> does to the files: Fix 1 then Fix 3 on the
  manager source, Fix 2 on the pipeline source.
\<close>

definition special_files :: "(string \<rightharpoonup> string) \<Rightarrow> (string \<rightharpoonup> string)" where
  "special_files fs =
     fs(manager_path := map_option (raw_fix3 \<circ> raw_fix1) (fs manager_path),
        pipeline_path := map_option raw_fix2 (fs pipeline_path))"

section \<open>Facts about matching and substitution\<close>

subsection \<open>Substitution where nothing matches\<close>

lemma re_sub_no_match: "\<not> re_search p s \<Longrightarrow> re_sub p t s = s"
proof (induction s)
  case Nil
  then show ?case by (subst re_sub.simps) (auto split: option.splits)
next
  case (Cons c cs)
  then show ?case by (subst re_sub.simps) (auto split: option.splits)
qed

subsection \<open>Group references\<close>

text \<open>
  A match returns one text per group of its pattern, so the reference \<^verbatim>\<open>\1\<close> of
  templates 1 and 2 is always to a group that exists (Python rejects a template with a
  reference to a missing group before it substitutes anything).
\<close>

lemma rx_match_groups:
  "rx_match p s = Some (n, g) \<Longrightarrow> length g = length (filter is_group p)"
proof (induction p arbitrary: s n g)
  case Nil
  then show ?case by simp
next
  case (Cons it its)
  from Cons.prems obtain k where
    "(case rx_match its (drop k s) of
        None \<Rightarrow> None
      | Some (n, groups) \<Rightarrow> Some (k + n, (if is_group it then [take k s] else []) @ groups))
     = Some (n, g)"
    by (auto dest: first_some_SomeD)
  then obtain m gs where "rx_match its (drop k s) = Some (m, gs)"
    and "g = (if is_group it then [take k s] else []) @ gs"
    by (auto split: option.splits)
  with Cons.IH show ?case by auto
qed

lemma group_reference1:
  assumes "rx_match pattern1 s = Some (n, g)"
  shows "length g = 1"
  using rx_match_groups [OF assms] by (simp add: pattern1_def)

lemma group_reference2:
  assumes "rx_match pattern2 s = Some (n, g)"
  shows "length g = 1"
  using rx_match_groups [OF assms] by (simp add: pattern2_def)

subsection \<open>A literal, a repetition, a literal\<close>

lemma lens_step: "1 \<le> n \<Longrightarrow> rev [1 ..< Suc (Suc n)] = Suc n # n # rev [1 ..< n]"
  by (cases n) simp_all

lemma takeWhile_syms:
  "c \<notin> set syms \<Longrightarrow> d \<noteq> c \<Longrightarrow>
   takeWhile (accepts (NoneOf c)) (syms @ d # c # rest) = syms @ [d]"
  by (induction syms) auto

lemma rx_match_lit_none: "\<not> prefix l s \<Longrightarrow> rx_match (Lit l # its) s = None"
  by simp

lemma rx_match_lit_only: "rx_match [Lit l] (l @ rest) = Some (length l, [])"
  by simp

lemma rx_match_capture:
  assumes "syms \<noteq> []" and "c \<notin> set syms" and "d \<noteq> c"
  shows "rx_match [Grp (Many1 (NoneOf c)), Lit (d # c # b)] (syms @ d # c # b @ rest)
         = Some (length syms + length (d # c # b), [syms])"
proof -
  let ?t = "syms @ d # c # b @ rest"
  from assms(1) have n: "1 \<le> length syms" by (cases syms) simp_all
  have tw: "takeWhile (accepts (NoneOf c)) ?t = syms @ [d]"
    using assms(2,3) by (rule takeWhile_syms)
  have "item_lens (Grp (Many1 (NoneOf c))) ?t = rev [1 ..< Suc (Suc (length syms))]"
    by (simp only: item_lens.simps tw length_append list.size) simp
  then have lens: "item_lens (Grp (Many1 (NoneOf c))) ?t
      = Suc (length syms) # length syms # rev [1 ..< length syms]"
    by (simp only: lens_step [OF n])
  have longest: "rx_match [Lit (d # c # b)] (drop (Suc (length syms)) ?t) = None"
    using assms(3) by (intro rx_match_lit_none) simp
  have "drop (length syms) ?t = (d # c # b) @ rest" by simp
  then have fits: "rx_match [Lit (d # c # b)] (drop (length syms) ?t) = Some (length (d # c # b), [])"
    by (simp only: rx_match_lit_only)
  have tk: "take (length syms) ?t = syms" by simp
  have "rx_match (Grp (Many1 (NoneOf c)) # [Lit (d # c # b)]) ?t
      = first_some
       (\<lambda>k. case rx_match [Lit (d # c # b)] (drop k ?t) of
              None \<Rightarrow> None
            | Some (n, groups) \<Rightarrow> Some (k + n, (if is_group (Grp (Many1 (NoneOf c))) then [take k ?t] else []) @ groups))
       (Suc (length syms) # length syms # rev [1 ..< length syms])"
    by (simp only: rx_match.simps lens)
  also have "\<dots> = Some (length syms + length (d # c # b), [syms])"
    by (simp only: first_some.simps longest fits tk option.case prod.case is_group.simps if_True
        append_Nil2)
  finally show ?thesis .
qed

lemma rx_match_import:
  assumes "syms \<noteq> []" and "c \<notin> set syms" and "d \<noteq> c"
  shows "rx_match [Lit a, Grp (Many1 (NoneOf c)), Lit (d # c # b)] (a @ syms @ d # c # b @ rest)
         = Some (length a + (length syms + length (d # c # b)), [syms])"
proof -
  let ?s = "a @ syms @ d # c # b @ rest"
  have lens: "item_lens (Lit a) ?s = [length a]" by simp
  have dr: "drop (length a) ?s = syms @ d # c # b @ rest" by simp
  have "rx_match (Lit a # [Grp (Many1 (NoneOf c)), Lit (d # c # b)]) ?s
      = first_some
       (\<lambda>k. case rx_match [Grp (Many1 (NoneOf c)), Lit (d # c # b)] (drop k ?s) of
              None \<Rightarrow> None
            | Some (n, groups) \<Rightarrow> Some (k + n, (if is_group (Lit a) then [take k ?s] else []) @ groups))
       [length a]"
    by (simp only: rx_match.simps lens)
  also have "\<dots> = Some (length a + (length syms + length (d # c # b)), [syms])"
    by (simp only: first_some.simps dr rx_match_capture [OF assms] option.case prod.case
        is_group.simps if_False append_Nil)
  finally show ?thesis .
qed

lemma rx_match_three:
  assumes "rx_match [Lit a, X, Lit b] s = Some (n, g)"
  shows "\<exists>k. k \<in> set (item_lens X (drop (length a) s))
          \<and> n = length a + (k + length b)
          \<and> take n s = a @ take k (drop (length a) s) @ b
          \<and> g = (if is_group X then [take k (drop (length a) s)] else [])"
proof -
  let ?s1 = "drop (length a) s"
  from assms have pa: "prefix a s"
    by (auto split: if_splits)
  with assms have m1: "rx_match [X, Lit b] ?s1 = Some (n - length a, g)" and na: "length a \<le> n"
    by (auto split: option.splits)
  from m1 obtain k where k: "k \<in> set (item_lens X ?s1)"
    and r: "(case rx_match [Lit b] (drop k ?s1) of
              None \<Rightarrow> None
            | Some (m, groups) \<Rightarrow> Some (k + m, (if is_group X then [take k ?s1] else []) @ groups))
            = Some (n - length a, g)"
    by (auto dest: first_some_SomeD)
  from r have pb: "prefix b (drop k ?s1)" and nk: "n - length a = k + length b"
    and g: "g = (if is_group X then [take k ?s1] else [])"
    by (auto split: option.splits if_splits)
  from pa obtain r1 where s: "s = a @ r1" by (auto simp: prefix_def)
  then have s1: "?s1 = r1" by simp
  from pb obtain r2 where "drop k r1 = b @ r2" by (auto simp: prefix_def s1)
  then have r1: "r1 = take k r1 @ b @ r2"
    by (metis append_take_drop_id)
  from k have kl: "k \<le> length r1" unfolding s1 by (rule item_lens_le)
  have n: "n = length a + (k + length b)" using nk na by simp
  have "take n s = a @ take (k + length b) r1"
    by (simp add: s n)
  also have "take (k + length b) r1 = take k r1 @ b"
  proof -
    have "take (k + length b) (take k r1 @ b @ r2) = take k r1 @ b"
      using kl by (simp add: take_add)
    with r1 show ?thesis by simp
  qed
  finally have "take n s = a @ take k ?s1 @ b" by (simp add: s1)
  with k n g show ?thesis by blast
qed

lemma many_no_line_feed:
  assumes "k \<in> set (item_lens (Many AnyChar) s)"
  shows "CHR 0x0A \<notin> set (take k s)"
proof -
  from assms have "k \<le> length (takeWhile (accepts AnyChar) s)" by auto
  then have "take k s = take k (takeWhile (accepts AnyChar) s)"
    by (metis takeWhile_eq_take take_take min.absorb1)
  then have "set (take k s) \<subseteq> set (takeWhile (accepts AnyChar) s)"
    by (metis set_take_subset)
  moreover have "CHR 0x0A \<notin> set (takeWhile (accepts AnyChar) s)"
    using set_takeWhileD by fastforce
  ultimately show ?thesis by blast
qed

lemma re_sub_whole:
  assumes "rx_match p s = Some (length s, g)" and "s \<noteq> []" and "rx_match p [] = None"
  shows "re_sub p t s = expand t g"
proof -
  have "re_sub p t [] = []" by (subst re_sub.simps) (simp add: assms(3))
  with assms(1,2) show ?thesis by (subst re_sub.simps) simp
qed

subsection \<open>Where a pattern cannot match\<close>

lemma apart_suffix: "apart y n \<Longrightarrow> suffix u y \<Longrightarrow> apart u n"
proof (induction y)
  case Nil
  then show ?case by simp
next
  case (Cons c cs)
  from Cons.prems(2) have "u = c # cs \<or> suffix u cs" by (simp add: suffix_Cons)
  with Cons show ?case by auto
qed

lemma apart_head: "apart y n \<Longrightarrow> y \<noteq> [] \<Longrightarrow> \<not> prefix y n \<and> \<not> prefix n y"
  by (cases y) auto

lemma re_search_apart:
  "apart u l \<Longrightarrow> re_search (Lit l # its) (u @ v) = re_search (Lit l # its) v"
proof (induction u)
  case Nil
  then show ?case by simp
next
  case (Cons c u)
  from Cons.prems have "\<not> prefix (c # u) l" "\<not> prefix l (c # u)" "apart u l" by simp_all
  then have "\<not> prefix l ((c # u) @ v)"
    using prefix_append [of l "c # u" v] by auto
  then have "rx_match (Lit l # its) ((c # u) @ v) = None" by (rule rx_match_lit_none)
  with Cons.IH [OF \<open>apart u l\<close>] show ?case by (simp del: rx_match.simps)
qed

lemma re_search_no_char:
  assumes "x \<in> set l"
  shows "x \<notin> set s \<Longrightarrow> \<not> re_search (Lit l # its) s"
proof (induction s)
  case Nil
  from assms have "\<not> prefix l []" by auto
  then show ?case by simp
next
  case (Cons c s)
  have "\<not> prefix l (c # s)"
  proof
    assume "prefix l (c # s)"
    then have "set l \<subseteq> set (c # s)" by (rule set_mono_prefix)
    with assms Cons.prems show False by auto
  qed
  then have "rx_match (Lit l # its) (c # s) = None" by (rule rx_match_lit_none)
  with Cons show ?case by (simp del: rx_match.simps)
qed

lemma first_split_unique:
  "c \<notin> set a \<Longrightarrow> c \<notin> set b \<Longrightarrow> a @ c # x = b @ c # y \<Longrightarrow> a = b \<and> x = y"
proof (induction a arbitrary: b)
  case Nil
  then show ?case by (cases b) auto
next
  case (Cons h a)
  then show ?case by (cases b) auto
qed

lemma brace_mismatch:
  assumes "c \<notin> set syms" and "c \<notin> set e" and "d \<noteq> c" and "\<not> prefix f g"
  shows "\<not> prefix (e @ c # f) (syms @ d # c # g)"
proof
  assume "prefix (e @ c # f) (syms @ d # c # g)"
  then obtain z where "syms @ d # c # g = (e @ c # f) @ z"
    unfolding prefix_def by (rule exE)
  then have eq: "(syms @ [d]) @ c # g = e @ c # (f @ z)" by simp
  from assms(1,3) have "c \<notin> set (syms @ [d])" by simp
  from first_split_unique [OF this assms(2) eq] have "g = f @ z" by (rule conjunct2)
  with assms(4) show False by simp
qed

lemma apart_facts:
  "apart ''// Module not yet implemented\<newline>// import { '' ''import type { ''"
  "apart ''// Module not yet implemented\<newline>// '' ''import { ExchangeService } from '..''"
  "apart ''mport { '' ''import { ExchangeService } from '..''"
  "apart ''// Module not yet implemented\<newline>// '' ''import { exchangeConnections } from '..''"
  "apart ''mport { '' ''import { exchangeConnections } from '..''"
  "apart ''import type { '' ''import { ''"
  "apart ''// Module not yet implemented\<newline>// import type { '' ''import { ExchangeService } from '..''"
  "apart ''// Module not yet implemented\<newline>// import type { '' ''import { exchangeConnections } from '..''"
  by code_simp+

subsection \<open>Every replacement adds a line feed\<close>

text \<open>
  A match of pattern 1 or 2 is replaced by the comment line, a line feed, \<^verbatim>\<open>// \<close> and
  the match itself; a match of pattern 3 or 4 holds no line feed and is replaced by a text
  with one. So each of the four substitutions keeps or raises the number of line feeds, and
  raises it when its pattern matches: a text in which a pattern matches is changed.
\<close>

lemma line_feeds_append [simp]: "line_feeds (a @ b) = line_feeds a + line_feeds b"
  by (simp add: line_feeds_def)

lemma line_feeds_none: "CHR 0x0A \<notin> set s \<Longrightarrow> line_feeds s = 0"
  by (induction s) (auto simp: line_feeds_def)

lemma line_feeds_split: "line_feeds (take n s) + line_feeds (drop n s) = line_feeds s"
  using line_feeds_append [of "take n s" "drop n s"] by simp

lemma match_adds_line1:
  assumes "rx_match pattern1 s = Some (n, g)"
  shows "0 < n \<and> line_feeds (expand template1 g) = line_feeds (take n s) + 1"
proof -
  from rx_match_three [OF assms [unfolded pattern1_def]] obtain k where
    "n = length ''import { '' + (k + length '' } from '@/modules/exchanges';'')"
    "take n s = ''import { '' @ take k (drop (length ''import { '') s) @ '' } from '@/modules/exchanges';''"
    "g = [take k (drop (length ''import { '') s)]"
    by auto
  then show ?thesis
    by (simp add: template1_def line_feeds_def)
qed

lemma match_adds_line2:
  assumes "rx_match pattern2 s = Some (n, g)"
  shows "0 < n \<and> line_feeds (expand template2 g) = line_feeds (take n s) + 1"
proof -
  from rx_match_three [OF assms [unfolded pattern2_def]] obtain k where
    "n = length ''import type { '' + (k + length '' } from '@/modules/exchanges';'')"
    "take n s = ''import type { '' @ take k (drop (length ''import type { '') s) @ '' } from '@/modules/exchanges';''"
    "g = [take k (drop (length ''import type { '') s)]"
    by auto
  then show ?thesis
    by (simp add: template2_def line_feeds_def)
qed

lemma match_adds_line3:
  assumes "rx_match pattern3 s = Some (n, g)"
  shows "0 < n \<and> line_feeds (expand template3 g) = line_feeds (take n s) + 1"
proof -
  from rx_match_three [OF assms [unfolded pattern3_def]] obtain k where
    k: "k \<in> set (item_lens (Many AnyChar) (drop (length ''import { ExchangeService } from '..'') s))"
    and n: "n = length ''import { ExchangeService } from '..'' + (k + length ''exchanges/services/exchange.service';'')"
    and t: "take n s = ''import { ExchangeService } from '..''
         @ take k (drop (length ''import { ExchangeService } from '..'') s)
         @ ''exchanges/services/exchange.service';''"
    by auto
  from many_no_line_feed [OF k]
  have "line_feeds (take k (drop (length ''import { ExchangeService } from '..'') s)) = 0"
    by (rule line_feeds_none)
  with t have "line_feeds (take n s) = 0"
    by (simp add: line_feeds_def)
  moreover have "line_feeds (expand template3 g) = 1"
    by (simp add: template3_def line_feeds_def)
  ultimately show ?thesis using n by simp
qed

lemma match_adds_line4:
  assumes "rx_match pattern4 s = Some (n, g)"
  shows "0 < n \<and> line_feeds (expand template4 g) = line_feeds (take n s) + 1"
proof -
  from rx_match_three [OF assms [unfolded pattern4_def]] obtain k where
    k: "k \<in> set (item_lens (Many AnyChar) (drop (length ''import { exchangeConnections } from '..'') s))"
    and n: "n = length ''import { exchangeConnections } from '..'' + (k + length ''exchanges/schema/exchanges.schema';'')"
    and t: "take n s = ''import { exchangeConnections } from '..''
         @ take k (drop (length ''import { exchangeConnections } from '..'') s)
         @ ''exchanges/schema/exchanges.schema';''"
    by auto
  from many_no_line_feed [OF k]
  have "line_feeds (take k (drop (length ''import { exchangeConnections } from '..'') s)) = 0"
    by (rule line_feeds_none)
  with t have "line_feeds (take n s) = 0"
    by (simp add: line_feeds_def)
  moreover have "line_feeds (expand template4 g) = 1"
    by (simp add: template4_def line_feeds_def)
  ultimately show ?thesis using n by simp
qed

lemma re_sub_line_feeds:
  assumes step: "\<And>s n g. rx_match p s = Some (n, g)
     \<Longrightarrow> 0 < n \<and> line_feeds (expand t g) = line_feeds (take n s) + 1"
  shows "line_feeds s \<le> line_feeds (re_sub p t s)
       \<and> (re_search p s \<longrightarrow> line_feeds s < line_feeds (re_sub p t s))"
proof (induction "length s" arbitrary: s rule: less_induct)
  case less
  show ?case
  proof (cases "rx_match p s")
    case None
    show ?thesis
    proof (cases s)
      case Nil
      with None show ?thesis by (subst (1 2) re_sub.simps) simp
    next
      case (Cons c cs)
      have IH: "line_feeds cs \<le> line_feeds (re_sub p t cs)
         \<and> (re_search p cs \<longrightarrow> line_feeds cs < line_feeds (re_sub p t cs))"
        using less [of cs] Cons by simp
      have out: "re_sub p t (c # cs) = c # re_sub p t cs"
        using None Cons by (subst re_sub.simps) simp
      have "re_search p (c # cs) = re_search p cs" using None Cons by simp
      moreover have "line_feeds (c # x) = (if c = CHR 0x0A then 1 else 0) + line_feeds x" for x
        by (simp add: line_feeds_def)
      ultimately show ?thesis
        using IH unfolding Cons out by simp
    qed
  next
    case (Some r)
    obtain n g where r: "r = (n, g)" by (cases r)
    from step [OF Some [unfolded r]] have n: "0 < n"
      and l: "line_feeds (expand t g) = line_feeds (take n s) + 1" by simp_all
    from Some r have "n \<le> length s" by (auto dest: rx_match_le)
    with n have "length (drop n s) < length s" by simp
    then have IH: "line_feeds (drop n s) \<le> line_feeds (re_sub p t (drop n s))"
      using less [of "drop n s"] by simp
    have out: "re_sub p t s = expand t g @ re_sub p t (drop n s)"
      using Some r n by (subst re_sub.simps) simp
    have "line_feeds s < line_feeds (re_sub p t s)"
      using IH l line_feeds_split [of n s] by (simp add: out)
    then show ?thesis by simp
  qed
qed

lemma substitutions_changes:
  assumes "re_search pattern1 c \<or> re_search pattern2 c \<or> re_search pattern3 c \<or> re_search pattern4 c"
  shows "substitutions c \<noteq> c"
proof -
  define c1 where "c1 = re_sub pattern1 template1 c"
  define c2 where "c2 = re_sub pattern2 template2 c1"
  define c3 where "c3 = re_sub pattern3 template3 c2"
  define c4 where "c4 = re_sub pattern4 template4 c3"
  note s1 = re_sub_line_feeds [of pattern1 template1, OF match_adds_line1]
  note s2 = re_sub_line_feeds [of pattern2 template2, OF match_adds_line2]
  note s3 = re_sub_line_feeds [of pattern3 template3, OF match_adds_line3]
  note s4 = re_sub_line_feeds [of pattern4 template4, OF match_adds_line4]
  have mono: "line_feeds c \<le> line_feeds c1" "line_feeds c1 \<le> line_feeds c2"
    "line_feeds c2 \<le> line_feeds c3" "line_feeds c3 \<le> line_feeds c4"
    using s1 [of c] s2 [of c1] s3 [of c2] s4 [of c3] by (simp_all add: c1_def c2_def c3_def c4_def)
  have "line_feeds c < line_feeds c4"
  proof (cases "re_search pattern1 c")
    case True
    with s1 [of c] have "line_feeds c < line_feeds c1" by (simp add: c1_def)
    with mono show ?thesis by simp
  next
    case n1: False
    then have e1: "c1 = c" by (simp add: c1_def re_sub_no_match)
    show ?thesis
    proof (cases "re_search pattern2 c")
      case True
      with s2 [of c1] e1 have "line_feeds c < line_feeds c2" by (simp add: c2_def)
      with mono show ?thesis by simp
    next
      case n2: False
      then have e2: "c2 = c" by (simp add: c2_def e1 re_sub_no_match)
      show ?thesis
      proof (cases "re_search pattern3 c")
        case True
        with s3 [of c2] e2 have "line_feeds c < line_feeds c3" by (simp add: c3_def)
        with mono show ?thesis by simp
      next
        case n3: False
        then have e3: "c3 = c" by (simp add: c3_def e2 re_sub_no_match)
        from n1 n2 n3 assms have "re_search pattern4 c" by simp
        with s4 [of c3] e3 show ?thesis by (simp add: c4_def)
      qed
    qed
  qed
  moreover have "substitutions c = c4"
    by (simp add: substitutions_def c1_def c2_def c3_def c4_def)
  ultimately show ?thesis by auto
qed

subsection \<open>An import alone in a file\<close>

lemma single_import_sub1:
  assumes "syms \<noteq> []" and "CHR ''}'' \<notin> set syms"
  shows "re_sub pattern1 template1 (''import { '' @ syms @ '' } from '@/modules/exchanges';'')
       = ''// Module not yet implemented\<newline>// import { '' @ syms @ '' } from '@/modules/exchanges';''"
proof -
  have "rx_match pattern1 (''import { '' @ syms @ '' } from '@/modules/exchanges';'')
      = Some (length (''import { '' @ syms @ '' } from '@/modules/exchanges';''), [syms])"
    using rx_match_import [OF assms, of "CHR '' ''" "''import { ''" "'' from '@/modules/exchanges';''" "[]"]
    by (simp add: pattern1_def del: rx_match.simps)
  moreover have "rx_match pattern1 [] = None" by (simp add: pattern1_def)
  ultimately have "re_sub pattern1 template1 (''import { '' @ syms @ '' } from '@/modules/exchanges';'')
      = expand template1 [syms]"
    by (intro re_sub_whole) simp_all
  then show ?thesis by (simp add: template1_def)
qed

lemma single_import_quiet2:
  assumes "CHR ''{'' \<notin> set syms"
  shows "\<not> re_search pattern2
     (''// Module not yet implemented\<newline>// import { '' @ syms @ '' } from '@/modules/exchanges';'')"
proof -
  have "\<not> re_search pattern2 (syms @ '' } from '@/modules/exchanges';'')"
    unfolding pattern2_def using assms by (intro re_search_no_char [of "CHR ''{''"]) simp_all
  then show ?thesis
    unfolding pattern2_def by (simp only: re_search_apart [OF apart_facts(1)] not_False_eq_True)
qed

lemma single_import_quiet3:
  assumes "CHR ''{'' \<notin> set syms" and "CHR ''}'' \<notin> set syms"
  shows "\<not> re_search pattern3
     (''// Module not yet implemented\<newline>// import { '' @ syms @ '' } from '@/modules/exchanges';'')"
proof -
  let ?tail = "syms @ '' } from '@/modules/exchanges';''"
  have tail: "\<not> re_search pattern3 ?tail"
    unfolding pattern3_def using assms(1) by (intro re_search_no_char [of "CHR ''{''"]) simp_all
  have "\<not> prefix (''ExchangeService '' @ CHR ''}'' # '' from '..'')
          (syms @ CHR '' '' # CHR ''}'' # '' from '@/modules/exchanges';'')"
    using assms(2) by (intro brace_mismatch) simp_all
  then have "\<not> prefix ''import { ExchangeService } from '..'' (''import { '' @ ?tail)"
    by simp
  then have here: "rx_match pattern3 (''import { '' @ ?tail) = None"
    unfolding pattern3_def by (rule rx_match_lit_none)
  have "re_search pattern3 (''import { '' @ ?tail) = re_search pattern3 (''mport { '' @ ?tail)"
    using here by (simp del: rx_match.simps)
  also have "\<dots> = re_search pattern3 ?tail"
    unfolding pattern3_def by (rule re_search_apart [OF apart_facts(3)])
  finally have "\<not> re_search pattern3 (''import { '' @ ?tail)" using tail by simp
  moreover have "re_search pattern3
       (''// Module not yet implemented\<newline>// '' @ ''import { '' @ ?tail)
     = re_search pattern3 (''import { '' @ ?tail)"
    unfolding pattern3_def by (rule re_search_apart [OF apart_facts(2)])
  ultimately show ?thesis by (simp del: re_search.simps)
qed

lemma single_import_quiet4:
  assumes "CHR ''{'' \<notin> set syms" and "CHR ''}'' \<notin> set syms"
  shows "\<not> re_search pattern4
     (''// Module not yet implemented\<newline>// import { '' @ syms @ '' } from '@/modules/exchanges';'')"
proof -
  let ?tail = "syms @ '' } from '@/modules/exchanges';''"
  have tail: "\<not> re_search pattern4 ?tail"
    unfolding pattern4_def using assms(1) by (intro re_search_no_char [of "CHR ''{''"]) simp_all
  have "\<not> prefix (''exchangeConnections '' @ CHR ''}'' # '' from '..'')
          (syms @ CHR '' '' # CHR ''}'' # '' from '@/modules/exchanges';'')"
    using assms(2) by (intro brace_mismatch) simp_all
  then have "\<not> prefix ''import { exchangeConnections } from '..'' (''import { '' @ ?tail)"
    by simp
  then have here: "rx_match pattern4 (''import { '' @ ?tail) = None"
    unfolding pattern4_def by (rule rx_match_lit_none)
  have "re_search pattern4 (''import { '' @ ?tail) = re_search pattern4 (''mport { '' @ ?tail)"
    using here by (simp del: rx_match.simps)
  also have "\<dots> = re_search pattern4 ?tail"
    unfolding pattern4_def by (rule re_search_apart [OF apart_facts(5)])
  finally have "\<not> re_search pattern4 (''import { '' @ ?tail)" using tail by simp
  moreover have "re_search pattern4
       (''// Module not yet implemented\<newline>// '' @ ''import { '' @ ?tail)
     = re_search pattern4 (''import { '' @ ?tail)"
    unfolding pattern4_def by (rule re_search_apart [OF apart_facts(4)])
  ultimately show ?thesis by (simp del: re_search.simps)
qed

lemma single_import:
  assumes "syms \<noteq> []" and "CHR ''}'' \<notin> set syms" and "CHR ''{'' \<notin> set syms"
  shows "substitutions (''import { '' @ syms @ '' } from '@/modules/exchanges';'')
       = ''// Module not yet implemented\<newline>// import { '' @ syms @ '' } from '@/modules/exchanges';''"
  unfolding substitutions_def
  by (simp only: single_import_sub1 [OF assms(1,2)]
      re_sub_no_match [OF single_import_quiet2 [OF assms(3)]]
      re_sub_no_match [OF single_import_quiet3 [OF assms(3,2)]]
      re_sub_no_match [OF single_import_quiet4 [OF assms(3,2)]])

lemma type_import_quiet1:
  assumes "CHR ''{'' \<notin> set syms"
  shows "\<not> re_search pattern1 (''import type { '' @ syms @ '' } from '@/modules/exchanges';'')"
proof -
  have "\<not> re_search pattern1 (syms @ '' } from '@/modules/exchanges';'')"
    unfolding pattern1_def using assms by (intro re_search_no_char [of "CHR ''{''"]) simp_all
  then show ?thesis
    unfolding pattern1_def by (simp only: re_search_apart [OF apart_facts(6)] not_False_eq_True)
qed

lemma type_import_sub2:
  assumes "syms \<noteq> []" and "CHR ''}'' \<notin> set syms"
  shows "re_sub pattern2 template2 (''import type { '' @ syms @ '' } from '@/modules/exchanges';'')
       = ''// Module not yet implemented\<newline>// import type { '' @ syms @ '' } from '@/modules/exchanges';''"
proof -
  have "rx_match pattern2 (''import type { '' @ syms @ '' } from '@/modules/exchanges';'')
      = Some (length (''import type { '' @ syms @ '' } from '@/modules/exchanges';''), [syms])"
    using rx_match_import [OF assms, of "CHR '' ''" "''import type { ''" "'' from '@/modules/exchanges';''" "[]"]
    by (simp add: pattern2_def del: rx_match.simps)
  moreover have "rx_match pattern2 [] = None" by (simp add: pattern2_def)
  ultimately have "re_sub pattern2 template2 (''import type { '' @ syms @ '' } from '@/modules/exchanges';'')
      = expand template2 [syms]"
    by (intro re_sub_whole) simp_all
  then show ?thesis by (simp add: template2_def)
qed

lemma type_import_quiet3:
  assumes "CHR ''{'' \<notin> set syms"
  shows "\<not> re_search pattern3
     (''// Module not yet implemented\<newline>// import type { '' @ syms @ '' } from '@/modules/exchanges';'')"
proof -
  have "\<not> re_search pattern3 (syms @ '' } from '@/modules/exchanges';'')"
    unfolding pattern3_def using assms by (intro re_search_no_char [of "CHR ''{''"]) simp_all
  then show ?thesis
    unfolding pattern3_def by (simp only: re_search_apart [OF apart_facts(7)] not_False_eq_True)
qed

lemma type_import_quiet4:
  assumes "CHR ''{'' \<notin> set syms"
  shows "\<not> re_search pattern4
     (''// Module not yet implemented\<newline>// import type { '' @ syms @ '' } from '@/modules/exchanges';'')"
proof -
  have "\<not> re_search pattern4 (syms @ '' } from '@/modules/exchanges';'')"
    unfolding pattern4_def using assms by (intro re_search_no_char [of "CHR ''{''"]) simp_all
  then show ?thesis
    unfolding pattern4_def by (simp only: re_search_apart [OF apart_facts(8)] not_False_eq_True)
qed

lemma type_import:
  assumes "syms \<noteq> []" and "CHR ''}'' \<notin> set syms" and "CHR ''{'' \<notin> set syms"
  shows "substitutions (''import type { '' @ syms @ '' } from '@/modules/exchanges';'')
       = ''// Module not yet implemented\<newline>// import type { '' @ syms @ '' } from '@/modules/exchanges';''"
  unfolding substitutions_def
  by (simp only: re_sub_no_match [OF type_import_quiet1 [OF assms(3)]]
      type_import_sub2 [OF assms(1,2)]
      re_sub_no_match [OF type_import_quiet3 [OF assms(3)]]
      re_sub_no_match [OF type_import_quiet4 [OF assms(3)]])

section \<open>Properties of \<^verbatim>\<open>fix_file\<close>\<close>

subsection \<open>A missing file, a file without a match, a file with a match\<close>

text \<open>
  C6. For a path that is not on disk \<^verbatim>\<open>fix_file\<close> prints its heading and the
  "File not found" line and returns \<^verbatim>\<open>False\<close>; the files and the list of writes are
  those it started with, so no backup is created and nothing is written.
\<close>

theorem fix_file_missing:
  assumes "files w filepath = None"
  shows "fix_file filepath w =
    (False, w\<lparr>console := console w @
       [''Fixing '' @ basename filepath @ ''...'',
        ''  '' @ warning_sign @ ''  File not found: '' @ filepath]\<rparr>)"
  using assms by (simp add: fix_file_def read_text_def py_print_def)

theorem fix_file_missing_witness:
  "files \<lparr>files = Map.empty, writes = [], console = []\<rparr> ''gone.ts'' = None
   \<and> fix_file ''gone.ts'' \<lparr>files = Map.empty, writes = [], console = []\<rparr> =
       (False, \<lparr>files = Map.empty, writes = [],
                console = [''Fixing gone.ts...'',
                           ''  '' @ warning_sign @ ''  File not found: gone.ts'']\<rparr>)"
  using fix_file_missing [of "\<lparr>files = Map.empty, writes = [], console = []\<rparr>" "''gone.ts''"]
  by (simp add: basename_def)

text \<open>
  C7. For an existing file in whose text none of the four patterns matches,
  \<^verbatim>\<open>fix_file\<close> prints its heading and "No changes needed" and returns \<^verbatim>\<open>False\<close>;
  the files (so the content of this one, byte for byte) and the list of writes are those
  it started with: no backup, no write.
\<close>

theorem fix_file_no_match:
  assumes "files w filepath = Some raw"
    and "\<not> re_search pattern1 (universal_newlines raw)"
    and "\<not> re_search pattern2 (universal_newlines raw)"
    and "\<not> re_search pattern3 (universal_newlines raw)"
    and "\<not> re_search pattern4 (universal_newlines raw)"
  shows "fix_file filepath w =
    (False, w\<lparr>console := console w @
       [''Fixing '' @ basename filepath @ ''...'',
        ''  '' @ info_sign @ ''  No changes needed'']\<rparr>)"
proof -
  have "substitutions (universal_newlines raw) = universal_newlines raw"
    using assms(2-5) by (simp add: substitutions_def re_sub_no_match)
  with assms(1) show ?thesis
    by (simp add: fix_file_def read_text_def py_print_def)
qed

lemma plain_text_no_match:
  "\<not> re_search pattern1 (universal_newlines ''import { x } from './y';'')"
  "\<not> re_search pattern2 (universal_newlines ''import { x } from './y';'')"
  "\<not> re_search pattern3 (universal_newlines ''import { x } from './y';'')"
  "\<not> re_search pattern4 (universal_newlines ''import { x } from './y';'')"
  by (simp_all add: pattern1_def pattern2_def pattern3_def pattern4_def)

theorem fix_file_no_match_witness:
  "files (one_file ''a.ts'' ''import { x } from './y';'') ''a.ts'' = Some ''import { x } from './y';''
   \<and> \<not> re_search pattern1 (universal_newlines ''import { x } from './y';'')
   \<and> \<not> re_search pattern2 (universal_newlines ''import { x } from './y';'')
   \<and> \<not> re_search pattern3 (universal_newlines ''import { x } from './y';'')
   \<and> \<not> re_search pattern4 (universal_newlines ''import { x } from './y';'')
   \<and> fix_file ''a.ts'' (one_file ''a.ts'' ''import { x } from './y';'') =
       (False, \<lparr>files = [''a.ts'' \<mapsto> ''import { x } from './y';''], writes = [],
                console = [''Fixing a.ts...'', ''  '' @ info_sign @ ''  No changes needed'']\<rparr>)"
  using fix_file_no_match [of "one_file ''a.ts'' ''import { x } from './y';''" "''a.ts''"
      "''import { x } from './y';''"] plain_text_no_match
  by (simp add: one_file_def basename_def)

text \<open>
  For an existing file in whose text one of the four patterns matches, the substitutions
  change the text, and \<^verbatim>\<open>fix_file\<close> returns \<^verbatim>\<open>True\<close> after two writes: the text it
  read goes to the path with \<^verbatim>\<open>.bak\<close> appended, then the new text to the path itself.
  The backup is the text as read: in the instance below the file has CR LF line ends and
  the backup has line feeds.
\<close>

theorem fix_file_match:
  assumes "files w filepath = Some raw"
    and "re_search pattern1 (universal_newlines raw) \<or> re_search pattern2 (universal_newlines raw)
       \<or> re_search pattern3 (universal_newlines raw) \<or> re_search pattern4 (universal_newlines raw)"
  shows "substitutions (universal_newlines raw) \<noteq> universal_newlines raw
    \<and> fix_file filepath w =
      (True,
       w\<lparr>files := (files w)(filepath @ ''.bak'' \<mapsto> universal_newlines raw,
                              filepath \<mapsto> substitutions (universal_newlines raw)),
         writes := writes w @ [(filepath @ ''.bak'', universal_newlines raw),
                               (filepath, substitutions (universal_newlines raw))],
         console := console w @
           [''Fixing '' @ basename filepath @ ''...'',
            ''  '' @ check_mark @ '' Fixed and backed up to '' @ basename filepath @ ''.bak'']\<rparr>)"
proof -
  from substitutions_changes [OF assms(2)]
  have "substitutions (universal_newlines raw) \<noteq> universal_newlines raw" .
  with assms(1) show ?thesis
    by (simp add: fix_file_def read_text_def py_print_def write_text_def Let_def)
qed

lemma crlf_match:
  "re_search pattern1 (universal_newlines
     (''import { A } from '@/modules/exchanges';'' @ [CHR 0x0D, CHR 0x0A]
      @ ''const x = 1;'' @ [CHR 0x0D, CHR 0x0A]))"
  by code_simp

theorem fix_file_match_witness:
  "files (one_file ''a.ts'' (''import { A } from '@/modules/exchanges';'' @ [CHR 0x0D, CHR 0x0A]
            @ ''const x = 1;'' @ [CHR 0x0D, CHR 0x0A])) ''a.ts''
     = Some (''import { A } from '@/modules/exchanges';'' @ [CHR 0x0D, CHR 0x0A]
            @ ''const x = 1;'' @ [CHR 0x0D, CHR 0x0A])
   \<and> re_search pattern1 (universal_newlines
        (''import { A } from '@/modules/exchanges';'' @ [CHR 0x0D, CHR 0x0A]
         @ ''const x = 1;'' @ [CHR 0x0D, CHR 0x0A]))
   \<and> files (snd (fix_file ''a.ts''
        (one_file ''a.ts'' (''import { A } from '@/modules/exchanges';'' @ [CHR 0x0D, CHR 0x0A]
            @ ''const x = 1;'' @ [CHR 0x0D, CHR 0x0A])))) ''a.ts.bak''
     = Some ''import { A } from '@/modules/exchanges';\<newline>const x = 1;\<newline>''"
proof -
  let ?raw = "''import { A } from '@/modules/exchanges';'' @ [CHR 0x0D, CHR 0x0A]
            @ ''const x = 1;'' @ [CHR 0x0D, CHR 0x0A]"
  have f: "files (one_file ''a.ts'' ?raw) ''a.ts'' = Some ?raw"
    by (simp add: one_file_def)
  have u: "universal_newlines ?raw = ''import { A } from '@/modules/exchanges';\<newline>const x = 1;\<newline>''"
    by simp
  from fix_file_match [OF f disjI1 [OF crlf_match]]
  have "files (snd (fix_file ''a.ts'' (one_file ''a.ts'' ?raw))) ''a.ts.bak''
      = Some (universal_newlines ?raw)"
    by (simp del: universal_newlines.simps)
  with f crlf_match u show ?thesis by (simp del: universal_newlines.simps)
qed

subsection \<open>Symbol lists over several lines\<close>

text \<open>
  C10. The set \<^verbatim>\<open>[^}]\<close> of patterns 1 and 2 accepts the line feed, so a symbol list
  that runs over several lines is matched like any other: for every non-empty symbol list
  without a brace, a file that consists of the import is rewritten to the comment line
  followed by \<^verbatim>\<open>// \<close> and the import as it was. The symbol list is copied with its
  line feeds, so only the first line of the import gets the comment marker and the lines
  after it are left as they were.
\<close>

theorem multiline_symbol_list:
  assumes "syms \<noteq> []" and "CHR ''}'' \<notin> set syms" and "CHR ''{'' \<notin> set syms"
  shows "accepts (NoneOf CHR ''}'') CHR 0x0A
    \<and> substitutions (''import { '' @ syms @ '' } from '@/modules/exchanges';'')
       = ''// Module not yet implemented\<newline>// import { '' @ syms @ '' } from '@/modules/exchanges';''
    \<and> substitutions (''import type { '' @ syms @ '' } from '@/modules/exchanges';'')
       = ''// Module not yet implemented\<newline>// import type { '' @ syms @ '' } from '@/modules/exchanges';''"
  using single_import [OF assms] type_import [OF assms] by simp

theorem multiline_symbol_list_witness:
  "''A,\<newline>  B'' \<noteq> [] \<and> CHR ''}'' \<notin> set ''A,\<newline>  B'' \<and> CHR ''{'' \<notin> set ''A,\<newline>  B''
   \<and> accepts (NoneOf CHR ''}'') CHR 0x0A
   \<and> substitutions ''import { A,\<newline>  B } from '@/modules/exchanges';''
       = ''// Module not yet implemented\<newline>// import { A,\<newline>  B } from '@/modules/exchanges';''
   \<and> substitutions ''import type { A,\<newline>  B } from '@/modules/exchanges';''
       = ''// Module not yet implemented\<newline>// import type { A,\<newline>  B } from '@/modules/exchanges';''"
  using multiline_symbol_list [of "''A,\<newline>  B''"] by simp

subsection \<open>Running \<^verbatim>\<open>fix_file\<close> again\<close>

lemma rerun_first:
  "substitutions ''import { Foo } from '@/modules/exchanges';'' =
   ''// Module not yet implemented\<newline>// import { Foo } from '@/modules/exchanges';''"
  by code_simp

lemma rerun_second:
  "substitutions
     ''// Module not yet implemented\<newline>// import { Foo } from '@/modules/exchanges';'' =
   ''// Module not yet implemented\<newline>// // Module not yet implemented\<newline>// import { Foo } from '@/modules/exchanges';''"
  by code_simp

text \<open>
  C1 (the code departs from it). The commented line that pattern 1 writes still holds the
  text \<^verbatim>\<open>import { Foo } from '@/modules/exchanges';\<close>, and the pattern is not anchored
  to the start of a line, so a second run matches inside the comment: it returns
  \<^verbatim>\<open>True\<close> again, puts a second comment marker in front, and overwrites the backup
  with the output of the first run.
\<close>

theorem fix_file_twice:
  "fix_file ''a.ts''
     (snd (fix_file ''a.ts'' (one_file ''a.ts'' ''import { Foo } from '@/modules/exchanges';'')))
   = (True,
      \<lparr>files =
         [''a.ts'' \<mapsto> ''// Module not yet implemented\<newline>// // Module not yet implemented\<newline>// import { Foo } from '@/modules/exchanges';'',
          ''a.ts.bak'' \<mapsto> ''// Module not yet implemented\<newline>// import { Foo } from '@/modules/exchanges';''],
       writes =
         [(''a.ts.bak'', ''import { Foo } from '@/modules/exchanges';''),
          (''a.ts'', ''// Module not yet implemented\<newline>// import { Foo } from '@/modules/exchanges';''),
          (''a.ts.bak'', ''// Module not yet implemented\<newline>// import { Foo } from '@/modules/exchanges';''),
          (''a.ts'', ''// Module not yet implemented\<newline>// // Module not yet implemented\<newline>// import { Foo } from '@/modules/exchanges';'')],
       console =
         [''Fixing a.ts...'', ''  '' @ check_mark @ '' Fixed and backed up to a.ts.bak'',
          ''Fixing a.ts...'', ''  '' @ check_mark @ '' Fixed and backed up to a.ts.bak'']\<rparr>)"
  by (simp add: fix_file_def read_text_def write_text_def py_print_def one_file_def
      rerun_first rerun_second basename_def Let_def fun_upd_twist)

subsection \<open>The path of the service import\<close>

lemma one_level_path:
  "substitutions ''import { ExchangeService } from '../exchanges/services/exchange.service';'' =
   ''// Module not yet implemented\<newline>// import { ExchangeService } from '../../exchanges/services/exchange.service';''"
  by code_simp

lemma one_level_lost:
  "\<not> sublist ''import { ExchangeService } from '../exchanges/services/exchange.service';''
     ''// Module not yet implemented\<newline>// import { ExchangeService } from '../../exchanges/services/exchange.service';''"
  by code_simp

text \<open>
  C3 (the code departs from it). Pattern 3 accepts any relative path that ends in
  \<^verbatim>\<open>exchanges/services/exchange.service\<close>, but its replacement has no group reference:
  it always writes the path \<^verbatim>\<open>../../exchanges/services/exchange.service\<close>. For an
  import one directory level up, the commented line holds another path than the import
  had, and the original import line is nowhere in the output.
\<close>

theorem service_import_path_rewritten:
  "fix_file ''a.ts''
     (one_file ''a.ts'' ''import { ExchangeService } from '../exchanges/services/exchange.service';'')
   = (True,
      \<lparr>files =
         [''a.ts'' \<mapsto> ''// Module not yet implemented\<newline>// import { ExchangeService } from '../../exchanges/services/exchange.service';'',
          ''a.ts.bak'' \<mapsto> ''import { ExchangeService } from '../exchanges/services/exchange.service';''],
       writes =
         [(''a.ts.bak'', ''import { ExchangeService } from '../exchanges/services/exchange.service';''),
          (''a.ts'', ''// Module not yet implemented\<newline>// import { ExchangeService } from '../../exchanges/services/exchange.service';'')],
       console =
         [''Fixing a.ts...'', ''  '' @ check_mark @ '' Fixed and backed up to a.ts.bak'']\<rparr>)
   \<and> \<not> sublist ''import { ExchangeService } from '../exchanges/services/exchange.service';''
         ''// Module not yet implemented\<newline>// import { ExchangeService } from '../../exchanges/services/exchange.service';''"
  using one_level_lost
  by (simp add: fix_file_def read_text_def write_text_def py_print_def one_file_def
      one_level_path basename_def Let_def fun_upd_twist)

lemma two_level_path:
  "substitutions ''import { ExchangeService } from '../../exchanges/services/exchange.service';'' =
   ''// Module not yet implemented\<newline>// import { ExchangeService } from '../../exchanges/services/exchange.service';''"
  by code_simp

text \<open>
  The scenario the specification spells out, with the path two levels up, does hold.
\<close>

lemma service_import_scenario:
  "fix_file ''a.ts''
     (one_file ''a.ts'' ''import { ExchangeService } from '../../exchanges/services/exchange.service';'')
   = (True,
      \<lparr>files =
         [''a.ts'' \<mapsto> ''// Module not yet implemented\<newline>// import { ExchangeService } from '../../exchanges/services/exchange.service';'',
          ''a.ts.bak'' \<mapsto> ''import { ExchangeService } from '../../exchanges/services/exchange.service';''],
       writes =
         [(''a.ts.bak'', ''import { ExchangeService } from '../../exchanges/services/exchange.service';''),
          (''a.ts'', ''// Module not yet implemented\<newline>// import { ExchangeService } from '../../exchanges/services/exchange.service';'')],
       console =
         [''Fixing a.ts...'', ''  '' @ check_mark @ '' Fixed and backed up to a.ts.bak'']\<rparr>)"
  by (simp add: fix_file_def read_text_def write_text_def py_print_def one_file_def
      two_level_path basename_def Let_def fun_upd_twist)

subsection \<open>An import inside a match\<close>

lemma swallowed_import:
  "substitutions ''import { A,\<newline>import { B } from '@/modules/exchanges';'' =
   ''// Module not yet implemented\<newline>// import { A,\<newline>import { B } from '@/modules/exchanges';''"
  by code_simp

lemma last_line_matches: "rx_match pattern1 ''import { B } from '@/modules/exchanges';'' = Some (40, [''B''])"
  by code_simp

text \<open>
  C2 (the code departs from it). A match of pattern 1 can run over a line end. Here it
  starts at the first \<^verbatim>\<open>import { \<close> and ends behind the second line; the
  replacement puts the comment marker before the first line only. The file is backed up
  and overwritten, yet the last line of the new content is still the import statement
  \<^verbatim>\<open>import { B } from '@/modules/exchanges';\<close>, not commented out, and pattern 1
  matches it.
\<close>

theorem import_left_active:
  "fix_file ''a.ts'' (one_file ''a.ts'' ''import { A,\<newline>import { B } from '@/modules/exchanges';'')
   = (True,
      \<lparr>files =
         [''a.ts'' \<mapsto> ''// Module not yet implemented\<newline>// import { A,\<newline>'' @ ''import { B } from '@/modules/exchanges';'',
          ''a.ts.bak'' \<mapsto> ''import { A,\<newline>import { B } from '@/modules/exchanges';''],
       writes =
         [(''a.ts.bak'', ''import { A,\<newline>import { B } from '@/modules/exchanges';''),
          (''a.ts'', ''// Module not yet implemented\<newline>// import { A,\<newline>'' @ ''import { B } from '@/modules/exchanges';'')],
       console =
         [''Fixing a.ts...'', ''  '' @ check_mark @ '' Fixed and backed up to a.ts.bak'']\<rparr>)
   \<and> rx_match pattern1 ''import { B } from '@/modules/exchanges';'' = Some (40, [''B''])"
  using last_line_matches
  by (simp add: fix_file_def read_text_def write_text_def py_print_def one_file_def
      swallowed_import basename_def Let_def fun_upd_twist del: rx_match.simps)

lemma swallowed_foo_bar:
  "substitutions ''import { X,\<newline>import { Foo, Bar } from '@/modules/exchanges';'' =
   ''// Module not yet implemented\<newline>// import { X,\<newline>import { Foo, Bar } from '@/modules/exchanges';''"
  by code_simp

lemma foo_bar_not_commented:
  "\<not> sublist ''// import { Foo, Bar } from '@/modules/exchanges';''
      ''// Module not yet implemented\<newline>// import { X,\<newline>import { Foo, Bar } from '@/modules/exchanges';''"
  by code_simp

text \<open>
  C5 (the code departs from it). The input below contains the import statement
  \<^verbatim>\<open>import { Foo, Bar } from '@/modules/exchanges';\<close>, but the match of pattern 1
  starts one line earlier and takes it as part of its symbol list: the output holds the
  statement as it was, and does not hold
  \<^verbatim>\<open>// import { Foo, Bar } from '@/modules/exchanges';\<close>.
\<close>

theorem symbol_list_import_swallowed:
  "sublist ''import { Foo, Bar } from '@/modules/exchanges';''
     ''import { X,\<newline>import { Foo, Bar } from '@/modules/exchanges';''
   \<and> substitutions ''import { X,\<newline>import { Foo, Bar } from '@/modules/exchanges';'' =
       ''// Module not yet implemented\<newline>// import { X,\<newline>'' @ ''import { Foo, Bar } from '@/modules/exchanges';''
   \<and> \<not> sublist ''// import { Foo, Bar } from '@/modules/exchanges';''
        (substitutions ''import { X,\<newline>import { Foo, Bar } from '@/modules/exchanges';'')"
proof -
  have "sublist ''import { Foo, Bar } from '@/modules/exchanges';''
     ''import { X,\<newline>import { Foo, Bar } from '@/modules/exchanges';''"
    by code_simp
  with foo_bar_not_commented show ?thesis
    by (simp add: swallowed_foo_bar)
qed

text \<open>
  For the statement alone the output is the comment line and the commented statement, the
  symbol list \<^verbatim>\<open>Foo, Bar\<close> copied as it was.
\<close>

lemma foo_bar_alone:
  "substitutions ''import { Foo, Bar } from '@/modules/exchanges';'' =
   ''// Module not yet implemented\<newline>// import { Foo, Bar } from '@/modules/exchanges';''"
  by code_simp

section \<open>Facts about \<^verbatim>\<open>str.replace\<close>\<close>

text \<open>
  When the old text does not occur, nothing changes; when it occurs, the new text occurs
  in the result. The other facts say what a replacement cannot do to a third text \<open>g\<close>
  when the texts involved are \<open>apart\<close>: it cannot leave an occurrence of the old text
  behind, cannot destroy an occurrence of \<open>g\<close>, and cannot create one.
\<close>

lemma str_replace_id: "old \<noteq> [] \<Longrightarrow> \<not> sublist old s \<Longrightarrow> str_replace old new s = s"
  by (induction s) (auto simp: sublist_Cons_right)

lemma str_replace_has_new:
  "old \<noteq> [] \<Longrightarrow> sublist old s \<Longrightarrow> sublist new (str_replace old new s)"
proof (induction old new s rule: str_replace.induct)
  case (1 old new)
  then show ?case by simp
next
  case (2 old new c cs)
  show ?case
  proof (cases "prefix old (c # cs)")
    case True
    with 2 show ?thesis by simp
  next
    case False
    with 2 have "sublist new (str_replace old new cs)" by (simp add: sublist_Cons_right)
    with False 2 show ?thesis by (simp add: sublist_Cons_right)
  qed
qed

lemma str_replace_prefix_back:
  "old \<noteq> [] \<Longrightarrow> apart y new \<Longrightarrow> prefix y (str_replace old new cs) \<Longrightarrow> prefix y cs"
proof (induction cs arbitrary: y)
  case Nil
  then show ?case by simp
next
  case (Cons d ds)
  show ?case
  proof (cases y)
    case Nil
    then show ?thesis by simp
  next
    case (Cons e y')
    show ?thesis
    proof (cases "prefix old (d # ds)")
      case True
      with Cons.prems have "prefix y (new @ str_replace old new (drop (length old) (d # ds)))"
        by simp
      then have "prefix y new \<or> prefix new y"
        by (auto simp: prefix_append)
      moreover from Cons.prems(2) \<open>y = e # y'\<close> have "\<not> prefix y new \<and> \<not> prefix new y"
        by (intro apart_head) auto
      ultimately show ?thesis by simp
    next
      case False
      with Cons.prems \<open>y = e # y'\<close> have "e = d" and "prefix y' (str_replace old new ds)"
        by auto
      moreover from Cons.prems(2) \<open>y = e # y'\<close> have "apart y' new" by simp
      ultimately have "prefix y' ds" using Cons.IH Cons.prems(1) by blast
      with \<open>e = d\<close> \<open>y = e # y'\<close> show ?thesis by simp
    qed
  qed
qed

lemma str_replace_no_old:
  assumes "old \<noteq> []" and "apart new old" and "apart (tl old) new"
  shows "\<not> sublist old (str_replace old new s)"
proof (induction "length s" arbitrary: s rule: less_induct)
  case less
  show ?case
  proof (cases s)
    case Nil
    with assms(1) show ?thesis by simp
  next
    case (Cons c cs)
    show ?thesis
    proof (cases "prefix old s")
      case True
      define rest where "rest = drop (length old) s"
      from True assms(1) Cons have "length rest < length s" by (auto simp: rest_def)
      then have IH: "\<not> sublist old (str_replace old new rest)" by (rule less)
      from True Cons assms(1) have out: "str_replace old new s = new @ str_replace old new rest"
        by (simp add: rest_def)
      show ?thesis
      proof
        assume "sublist old (str_replace old new s)"
        then have "sublist old (new @ str_replace old new rest)" by (simp add: out)
        with IH have "sublist old new \<or>
           (\<exists>x1 x2. old = x1 @ x2 \<and> suffix x1 new \<and> prefix x2 (str_replace old new rest))"
          by (auto simp: sublist_append)
        then show False
        proof
          assume "sublist old new"
          then obtain u where u: "suffix u new" "prefix old u" by (auto simp: sublist_altdef')
          with assms(1) have "u \<noteq> []" by auto
          from apart_suffix [OF assms(2) u(1)] this have "\<not> prefix old u" by (auto dest: apart_head)
          with u show False by simp
        next
          assume "\<exists>x1 x2. old = x1 @ x2 \<and> suffix x1 new \<and> prefix x2 (str_replace old new rest)"
          then obtain x1 x2 where x: "old = x1 @ x2" "suffix x1 new"
            "prefix x2 (str_replace old new rest)" by blast
          show False
          proof (cases "x1 = []")
            case True
            with x have "prefix old (str_replace old new rest)" by simp
            with IH show False by auto
          next
            case False
            from apart_suffix [OF assms(2) x(2)] False have "\<not> prefix x1 old" by (auto dest: apart_head)
            with x(1) show False by simp
          qed
        qed
      qed
    next
      case False
      from Cons have "length cs < length s" by simp
      then have IH: "\<not> sublist old (str_replace old new cs)" by (rule less)
      from False Cons assms(1) have out: "str_replace old new s = c # str_replace old new cs"
        by simp
      show ?thesis
      proof
        assume "sublist old (str_replace old new s)"
        with IH out have p: "prefix old (c # str_replace old new cs)"
          by (simp add: sublist_Cons_right)
        from assms(1) obtain o' where o: "old = c # o'" "prefix o' (str_replace old new cs)"
          using p by (cases old) auto
        from o(1) assms(3) have "apart o' new" by simp
        from str_replace_prefix_back [OF assms(1) this o(2)] have "prefix o' cs" .
        with o(1) Cons False show False by simp
      qed
    qed
  qed
qed

lemma str_replace_twice:
  assumes "old \<noteq> []" and "apart new old" and "apart (tl old) new"
  shows "str_replace old new (str_replace old new s) = str_replace old new s"
  using assms by (intro str_replace_id str_replace_no_old)

lemma str_replace_append_apart:
  "old \<noteq> [] \<Longrightarrow> apart g old \<Longrightarrow> str_replace old new (g @ ss) = g @ str_replace old new ss"
proof (induction g)
  case Nil
  then show ?case by simp
next
  case (Cons e g)
  from Cons.prems(2) have "\<not> prefix (e # g) old" "\<not> prefix old (e # g)" "apart g old"
    by simp_all
  then have "\<not> prefix old ((e # g) @ ss)"
    using prefix_append [of old "e # g" ss] by auto
  with Cons.prems(1) Cons.IH \<open>apart g old\<close> show ?case by simp
qed

lemma str_replace_keeps:
  assumes "old \<noteq> []" and "apart g old" and "apart old g"
  shows "sublist g s \<Longrightarrow> sublist g (str_replace old new s)"
proof (induction "length s" arbitrary: s rule: less_induct)
  case less
  show ?case
  proof (cases "g = []")
    case True
    then show ?thesis by simp
  next
    case gne: False
    show ?thesis
    proof (cases s)
      case Nil
      with less.prems gne show ?thesis by simp
    next
      case (Cons c cs)
      show ?thesis
      proof (cases "prefix old s")
        case True
        define rest where "rest = drop (length old) s"
        from True have s: "s = old @ rest" by (auto simp: rest_def prefix_def)
        from s assms(1) have len: "length rest < length s" by simp
        from True Cons assms(1) have out: "str_replace old new s = new @ str_replace old new rest"
          by (simp add: rest_def)
        from less.prems s have "sublist g (old @ rest)" by simp
        then consider "sublist g old" | "sublist g rest"
          | x1 x2 where "g = x1 @ x2" "suffix x1 old" "prefix x2 rest"
          by (auto simp: sublist_append)
        then have "sublist g rest"
        proof cases
          case 1
          then obtain u where u: "suffix u old" "prefix g u" by (auto simp: sublist_altdef')
          with gne have "u \<noteq> []" by auto
          from apart_suffix [OF assms(3) u(1)] this have "\<not> prefix g u" by (auto dest: apart_head)
          with u show ?thesis by simp
        next
          case 2
          then show ?thesis .
        next
          case 3
          show ?thesis
          proof (cases "x1 = []")
            case True
            with 3 show ?thesis by auto
          next
            case False
            from apart_suffix [OF assms(3) 3(2)] False have "\<not> prefix x1 g" by (auto dest: apart_head)
            with 3(1) show ?thesis by simp
          qed
        qed
        with less.hyps [OF len] have "sublist g (str_replace old new rest)" by blast
        then show ?thesis by (simp add: out sublist_append)
      next
        case False
        from False Cons assms(1) have out: "str_replace old new s = c # str_replace old new cs"
          by simp
        from less.prems Cons have "prefix g (c # cs) \<or> sublist g cs"
          by (simp add: sublist_Cons_right)
        then show ?thesis
        proof
          assume "sublist g cs"
          moreover from Cons have "length cs < length s" by simp
          ultimately have "sublist g (str_replace old new cs)" using less.hyps [of cs] by blast
          then show ?thesis by (simp add: out sublist_Cons_right)
        next
          assume p: "prefix g (c # cs)"
          with gne obtain g' ss where g: "g = c # g'" "cs = g' @ ss"
            by (cases g) (auto simp: prefix_def)
          from assms(2) g(1) have "apart g' old" by simp
          from str_replace_append_apart [OF assms(1) this]
          have "str_replace old new cs = g' @ str_replace old new ss" by (simp add: g(2))
          with out g(1) have "prefix g (str_replace old new s)" by simp
          then show ?thesis by (rule prefix_imp_sublist)
        qed
      qed
    qed
  qed
qed

lemma str_replace_creates_not:
  assumes "old \<noteq> []" and "apart x new" and "apart new x"
  shows "sublist x (str_replace old new s) \<Longrightarrow> sublist x s"
proof (induction "length s" arbitrary: s rule: less_induct)
  case less
  show ?case
  proof (cases "x = []")
    case True
    then show ?thesis by simp
  next
    case xne: False
    show ?thesis
    proof (cases s)
      case Nil
      with less.prems assms(1) show ?thesis by simp
    next
      case (Cons c cs)
      show ?thesis
      proof (cases "prefix old s")
        case True
        define rest where "rest = drop (length old) s"
        from True have s: "s = old @ rest" by (auto simp: rest_def prefix_def)
        from s assms(1) have len: "length rest < length s" by simp
        from True Cons assms(1) have out: "str_replace old new s = new @ str_replace old new rest"
          by (simp add: rest_def)
        from less.prems out have "sublist x (new @ str_replace old new rest)" by simp
        then consider "sublist x new" | "sublist x (str_replace old new rest)"
          | x1 x2 where "x = x1 @ x2" "suffix x1 new" "prefix x2 (str_replace old new rest)"
          by (auto simp: sublist_append)
        then have "sublist x (str_replace old new rest)"
        proof cases
          case 1
          then obtain u where u: "suffix u new" "prefix x u" by (auto simp: sublist_altdef')
          with xne have "u \<noteq> []" by auto
          from apart_suffix [OF assms(3) u(1)] this have "\<not> prefix x u" by (auto dest: apart_head)
          with u show ?thesis by simp
        next
          case 2
          then show ?thesis .
        next
          case 3
          show ?thesis
          proof (cases "x1 = []")
            case True
            with 3 show ?thesis by auto
          next
            case False
            from apart_suffix [OF assms(3) 3(2)] False have "\<not> prefix x1 x" by (auto dest: apart_head)
            with 3(1) show ?thesis by simp
          qed
        qed
        with less.hyps [OF len] have "sublist x rest" by blast
        then show ?thesis by (simp add: s sublist_append)
      next
        case False
        from False Cons assms(1) have out: "str_replace old new s = c # str_replace old new cs"
          by simp
        from less.prems out have "prefix x (c # str_replace old new cs) \<or> sublist x (str_replace old new cs)"
          by (simp add: sublist_Cons_right)
        then show ?thesis
        proof
          assume "sublist x (str_replace old new cs)"
          moreover from Cons have "length cs < length s" by simp
          ultimately have "sublist x cs" using less.hyps [of cs] by blast
          then show ?thesis by (simp add: Cons sublist_Cons_right)
        next
          assume p: "prefix x (c # str_replace old new cs)"
          with xne obtain x' where x: "x = c # x'" "prefix x' (str_replace old new cs)"
            by (cases x) auto
          from assms(2) x(1) have "apart x' new" by simp
          from str_replace_prefix_back [OF assms(1) this x(2)] have "prefix x' cs" .
          with x(1) Cons have "prefix x s" by simp
          then show ?thesis by (rule prefix_imp_sublist)
        qed
      qed
    qed
  qed
qed

lemma str_replace_no_cr:
  "old \<noteq> [] \<Longrightarrow> CHR 0x0D \<notin> set s \<Longrightarrow> CHR 0x0D \<notin> set new \<Longrightarrow> CHR 0x0D \<notin> set (str_replace old new s)"
proof (induction old new s rule: str_replace.induct)
  case (1 old new)
  then show ?case by simp
next
  case (2 old new c cs)
  have "set (drop (length old) (c # cs)) \<subseteq> set (c # cs)" by (rule set_drop_subset)
  with 2 show ?case by (auto simp del: drop_Suc_Cons)
qed

subsection \<open>The texts of the three fixes\<close>

lemma adapter_apart1: "apart adapter_new adapter_old"
  by code_simp

lemma adapter_apart2: "apart (tl adapter_old) adapter_new"
  by code_simp

lemma apart_a: "apart ''ConnectionConfig, ExchangeId'' adapter_old" by code_simp

lemma apart_b: "apart adapter_old ''ConnectionConfig, ExchangeId''" by code_simp

lemma apart_c: "apart types_import_old adapter_new" by code_simp

lemma apart_d: "apart adapter_new types_import_old" by code_simp

lemma old_nonempty [simp]:
  "types_import_old \<noteq> []" "stub_marker \<noteq> []" "adapter_old \<noteq> []"
  by (simp_all add: types_import_old_def stub_marker_def adapter_old_def)

lemma new_no_cr [simp]:
  "CHR 0x0D \<notin> set types_import_new" "CHR 0x0D \<notin> set stub_text" "CHR 0x0D \<notin> set adapter_new"
  by code_simp+

lemma marker_in_types_new: "sublist ''ConnectionConfig, ExchangeId'' types_import_new"
  by code_simp

lemma head_in_types_old: "sublist ''import type { IExchangeAdapter'' types_import_old"
  by code_simp

lemma function_in_stub: "sublist ''function getDefaultWebSocketConfig'' stub_text"
  by code_simp

lemma call_in_adapter_new: "sublist adapter_call adapter_new"
  by code_simp

lemma call_in_adapter_old: "sublist adapter_call adapter_old"
  by code_simp

lemma commented_call_in_adapter_new:
  "sublist ''// return createWebSocketAdapter(exchangeId, config);'' adapter_new"
  by code_simp

lemma sublist_trans: "sublist a b \<Longrightarrow> sublist b c \<Longrightarrow> sublist a c"
  by (rule sublist_order.order_trans)

lemma demo_replace: "str_replace adapter_old adapter_new adapter_old = adapter_new"
  by code_simp

lemma paths_differ: "manager_path \<noteq> pipeline_path"
  by (simp add: manager_path_def pipeline_path_def)

section \<open>Properties of \<^verbatim>\<open>fix_special_cases\<close>\<close>

subsection \<open>Reading what was written\<close>

lemma universal_newlines_no_cr: "CHR 0x0D \<notin> set (universal_newlines s)"
  by (induction s rule: universal_newlines.induct) auto

lemma universal_newlines_id: "CHR 0x0D \<notin> set s \<Longrightarrow> universal_newlines s = s"
  by (induction s rule: universal_newlines.induct) auto

lemma read_text_no_cr: "read_text p w = Some c \<Longrightarrow> CHR 0x0D \<notin> set c"
  by (auto simp: read_text_def universal_newlines_no_cr)

lemma raw_patch_read:
  assumes "old \<noteq> []" and "CHR 0x0D \<notin> set new"
  shows "universal_newlines (raw_patch guard old new raw) = text_patch guard old new (universal_newlines raw)"
  using assms
  by (simp add: raw_patch_def text_patch_def universal_newlines_id str_replace_no_cr universal_newlines_no_cr)

lemma raw_patch_cases:
  assumes "old \<noteq> []" and "CHR 0x0D \<notin> set new"
  shows "raw_patch guard old new raw = raw \<and> \<not> guard (universal_newlines raw)
       \<or> raw_patch guard old new raw = text_patch guard old new (universal_newlines raw)
          \<and> CHR 0x0D \<notin> set (raw_patch guard old new raw)"
  using assms
  by (simp add: raw_patch_def text_patch_def str_replace_no_cr universal_newlines_no_cr)

lemma raw_patch_clean:
  assumes "CHR 0x0D \<notin> set raw"
  shows "raw_patch guard old new raw = text_patch guard old new raw"
  using assms by (simp add: raw_patch_def text_patch_def universal_newlines_id)

subsection \<open>The fixes on the text\<close>

lemma text_fix2_idem: "text_fix2 (text_fix2 c) = text_fix2 c"
proof (cases "guard2 c")
  case True
  then have "sublist stub_marker c" by (simp add: guard2_def)
  then have "sublist stub_text (str_replace stub_marker stub_text c)"
    by (intro str_replace_has_new) simp_all
  with function_in_stub have "sublist ''function getDefaultWebSocketConfig'' (str_replace stub_marker stub_text c)"
    by (rule sublist_trans)
  then have "\<not> guard2 (str_replace stub_marker stub_text c)" by (simp add: guard2_def)
  with True show ?thesis by (simp add: text_patch_def)
next
  case False
  then show ?thesis by (simp add: text_patch_def)
qed

lemma text_fix3_idem: "text_fix3 (text_fix3 c) = text_fix3 c"
proof -
  have "str_replace adapter_old adapter_new (str_replace adapter_old adapter_new c)
      = str_replace adapter_old adapter_new c"
    by (intro str_replace_twice adapter_apart1 adapter_apart2) simp
  then show ?thesis by (simp add: text_patch_def)
qed

lemma text_fix3_keeps_marker:
  "sublist ''ConnectionConfig, ExchangeId'' c \<Longrightarrow> sublist ''ConnectionConfig, ExchangeId'' (text_fix3 c)"
  by (simp add: text_patch_def str_replace_keeps [OF _ apart_a apart_b])

lemma text_fix3_creates_no_types_old:
  "\<not> sublist types_import_old c \<Longrightarrow> \<not> sublist types_import_old (text_fix3 c)"
  using str_replace_creates_not [OF _ apart_c apart_d, of adapter_old c]
  by (auto simp: text_patch_def)

lemma text_fix1_stable:
  assumes "sublist ''ConnectionConfig, ExchangeId'' c \<or> \<not> sublist types_import_old c"
  shows "text_fix1 c = c"
  using assms by (auto simp: text_patch_def guard1_def str_replace_id)

lemma text_fix1_result:
  "sublist ''ConnectionConfig, ExchangeId'' (text_fix1 c) \<or> \<not> sublist types_import_old (text_fix1 c)"
proof (cases "guard1 c")
  case True
  show ?thesis
  proof (cases "sublist types_import_old c")
    case yes: True
    then have "sublist types_import_new (str_replace types_import_old types_import_new c)"
      by (intro str_replace_has_new) simp_all
    with marker_in_types_new
    have "sublist ''ConnectionConfig, ExchangeId'' (str_replace types_import_old types_import_new c)"
      by (rule sublist_trans)
    with True show ?thesis by (simp add: text_patch_def)
  next
    case False
    then show ?thesis by (simp add: text_patch_def str_replace_id)
  qed
next
  case False
  then have "\<not> sublist ''import type { IExchangeAdapter'' c \<or> sublist ''ConnectionConfig, ExchangeId'' c"
    by (simp add: guard1_def)
  moreover have "\<not> sublist types_import_old c" if "\<not> sublist ''import type { IExchangeAdapter'' c"
    using that head_in_types_old sublist_trans by blast
  ultimately show ?thesis using False by (auto simp: text_patch_def)
qed

lemma text_fix1_after_fix3: "text_fix1 (text_fix3 (text_fix1 c)) = text_fix3 (text_fix1 c)"
  using text_fix1_result [of c] text_fix3_keeps_marker text_fix3_creates_no_types_old
  by (intro text_fix1_stable) blast

subsection \<open>The fixes on the files\<close>

lemma files_fix1:
  "files (fix1 w) = (files w)(manager_path := map_option raw_fix1 (files w manager_path))"
proof (cases "files w manager_path")
  case None
  then have "(files w)(manager_path := None) = files w" by (simp add: fun_upd_idem)
  with None show ?thesis by (simp add: fix1_def read_text_def)
next
  case (Some raw)
  then have "(files w)(manager_path \<mapsto> raw) = files w" by (simp add: fun_upd_idem)
  with Some show ?thesis
    by (simp add: fix1_def read_text_def write_text_def py_print_def raw_patch_def guard1_def)
qed

lemma files_fix2:
  "files (fix2 w) = (files w)(pipeline_path := map_option raw_fix2 (files w pipeline_path))"
proof (cases "files w pipeline_path")
  case None
  then have "(files w)(pipeline_path := None) = files w" by (simp add: fun_upd_idem)
  with None show ?thesis by (simp add: fix2_def read_text_def)
next
  case (Some raw)
  then have "(files w)(pipeline_path \<mapsto> raw) = files w" by (simp add: fun_upd_idem)
  with Some show ?thesis
    by (simp add: fix2_def read_text_def write_text_def py_print_def raw_patch_def guard2_def)
qed

lemma files_fix3:
  "files (fix3 w) = (files w)(manager_path := map_option raw_fix3 (files w manager_path))"
proof (cases "files w manager_path")
  case None
  then have "(files w)(manager_path := None) = files w" by (simp add: fun_upd_idem)
  with None show ?thesis by (simp add: fix3_def read_text_def)
next
  case (Some raw)
  then have "(files w)(manager_path \<mapsto> raw) = files w" by (simp add: fun_upd_idem)
  with Some show ?thesis
    by (simp add: fix3_def read_text_def write_text_def py_print_def raw_patch_def guard3_def)
qed

lemma files_fix_special_cases: "files (fix_special_cases w) = special_files (files w)"
  using paths_differ
  by (auto simp: fix_special_cases_def files_fix1 files_fix2 files_fix3 special_files_def
      option.map_comp fun_upd_twist)

lemma raw_fix2_idem: "raw_fix2 (raw_fix2 raw) = raw_fix2 raw"
proof -
  from raw_patch_cases [of stub_marker stub_text guard2 raw]
  consider "raw_fix2 raw = raw" "\<not> guard2 (universal_newlines raw)"
    | "raw_fix2 raw = text_fix2 (universal_newlines raw)" "CHR 0x0D \<notin> set (raw_fix2 raw)"
    by auto
  then show ?thesis
  proof cases
    case 1
    then show ?thesis by simp
  next
    case 2
    from raw_patch_clean [OF 2(2)] have "raw_fix2 (raw_fix2 raw) = text_fix2 (raw_fix2 raw)" .
    with 2(1) show ?thesis by (simp add: text_fix2_idem)
  qed
qed

lemma manager_stable:
  "raw_fix1 (raw_fix3 (raw_fix1 raw)) = raw_fix3 (raw_fix1 raw)
   \<and> raw_fix3 (raw_fix3 (raw_fix1 raw)) = raw_fix3 (raw_fix1 raw)"
proof -
  define r where "r = raw_fix3 (raw_fix1 raw)"
  define t0 where "t0 = universal_newlines raw"
  define t2 where "t2 = text_fix3 (text_fix1 t0)"
  have read1: "universal_newlines (raw_fix1 raw) = text_fix1 t0"
    by (simp add: raw_patch_read t0_def)
  from raw_patch_cases [of types_import_old types_import_new guard1 raw]
  consider (same1) "raw_fix1 raw = raw" "\<not> guard1 t0"
    | (new1) "raw_fix1 raw = text_fix1 t0" "CHR 0x0D \<notin> set (raw_fix1 raw)"
    by (auto simp: t0_def)
  then consider (untouched) "r = raw" "\<not> guard1 t0" "\<not> guard3 t0"
    | (written) "r = t2" "CHR 0x0D \<notin> set r"
  proof cases
    case same1
    then have t1: "text_fix1 t0 = t0" by (simp add: text_patch_def)
    from raw_patch_cases [OF old_nonempty(3) new_no_cr(3), of guard3 raw]
    show ?thesis
    proof (elim disjE conjE)
      assume "raw_fix3 raw = raw" "\<not> guard3 (universal_newlines raw)"
      with same1 show ?thesis by (intro untouched) (simp_all add: r_def t0_def)
    next
      assume "raw_fix3 raw = text_fix3 (universal_newlines raw)" "CHR 0x0D \<notin> set (raw_fix3 raw)"
      with same1 t1 show ?thesis by (intro written) (simp_all add: r_def t0_def t2_def)
    qed
  next
    case new1
    from raw_patch_clean [OF new1(2)]
    have "raw_fix3 (raw_fix1 raw) = text_fix3 (raw_fix1 raw)" .
    with new1(1) have "r = t2" by (simp add: r_def t2_def)
    moreover have "CHR 0x0D \<notin> set (text_fix3 (raw_fix1 raw))"
      using new1(2) by (simp add: text_patch_def str_replace_no_cr)
    ultimately show ?thesis using \<open>raw_fix3 (raw_fix1 raw) = text_fix3 (raw_fix1 raw)\<close>
      by (intro written) (simp_all add: r_def)
  qed
  then have "raw_fix1 r = r \<and> raw_fix3 r = r"
  proof cases
    case untouched
    then show ?thesis by (simp add: raw_patch_def t0_def)
  next
    case written
    from raw_patch_clean [OF written(2)] have "raw_fix1 r = text_fix1 r" "raw_fix3 r = text_fix3 r"
      by simp_all
    with written(1) show ?thesis
      by (simp add: t2_def text_fix1_after_fix3 text_fix3_idem)
  qed
  then show ?thesis by (simp add: r_def)
qed

lemma special_files_idem: "special_files (special_files fs) = special_files fs"
proof -
  have m: "map_option (raw_fix3 \<circ> raw_fix1) (map_option (raw_fix3 \<circ> raw_fix1) x)
         = map_option (raw_fix3 \<circ> raw_fix1) x" for x
    using manager_stable by (cases x) simp_all
  have p: "map_option raw_fix2 (map_option raw_fix2 x) = map_option raw_fix2 x" for x
    by (cases x) (simp_all add: raw_fix2_idem)
  show ?thesis
    using paths_differ
    by (auto simp: special_files_def m p simp del: o_apply)
qed

theorem fsc_idem: "files (fix_special_cases (fix_special_cases w)) = files (fix_special_cases w)"
  by (simp add: files_fix_special_cases special_files_idem)

lemma fix3_applied:
  assumes "read_text manager_path u = Some c" and "sublist adapter_call c"
  shows "fix3 u = py_print fix3_message (write_text manager_path (str_replace adapter_old adapter_new c) u)"
  using assms by (simp add: fix3_def fix3_message_def)

lemma files_funpow:
  "files ((fix_special_cases ^^ n) (fix_special_cases w)) = files (fix_special_cases w)"
proof (induction n)
  case 0
  then show ?case by simp
next
  case (Suc n)
  have "files ((fix_special_cases ^^ Suc n) (fix_special_cases w))
      = special_files (files ((fix_special_cases ^^ n) (fix_special_cases w)))"
    by (simp add: files_fix_special_cases)
  also have "\<dots> = special_files (special_files (files w))"
    by (simp add: Suc files_fix_special_cases)
  finally show ?case by (simp add: special_files_idem files_fix_special_cases)
qed

lemma fix2_guarded:
  assumes "read_text pipeline_path w = Some content"
    and "sublist ''function getDefaultWebSocketConfig'' content"
  shows "fix2 w = w"
  using assms by (simp add: fix2_def)

subsection \<open>A second run\<close>

lemma demo_read: "read_text manager_path (fix2 (fix1 manager_demo)) = Some adapter_old"
proof -
  have "\<not> sublist ''import type { IExchangeAdapter'' adapter_old" by code_simp
  moreover have "universal_newlines adapter_old = adapter_old" by code_simp
  ultimately have "fix1 manager_demo = manager_demo"
    by (simp add: fix1_def manager_demo_def one_file_def read_text_def)
  moreover have "fix2 manager_demo = manager_demo"
    using paths_differ by (simp add: fix2_def manager_demo_def one_file_def read_text_def)
  ultimately show ?thesis
    using \<open>universal_newlines adapter_old = adapter_old\<close>
    by (simp add: manager_demo_def one_file_def read_text_def)
qed

lemma demo_first_run:
  "fix_special_cases manager_demo =
     \<lparr>files = [manager_path \<mapsto> adapter_new], writes = [(manager_path, adapter_new)],
      console = [fix3_message]\<rparr>"
proof -
  have "\<not> sublist ''import type { IExchangeAdapter'' adapter_old" by code_simp
  moreover have u: "universal_newlines adapter_old = adapter_old" by code_simp
  ultimately have 1: "fix1 manager_demo = manager_demo"
    by (simp add: fix1_def manager_demo_def one_file_def read_text_def)
  have 2: "fix2 manager_demo = manager_demo"
    using paths_differ by (simp add: fix2_def manager_demo_def one_file_def read_text_def)
  have "read_text manager_path manager_demo = Some adapter_old"
    using u by (simp add: manager_demo_def one_file_def read_text_def)
  from fix3_applied [OF this call_in_adapter_old]
  have "fix_special_cases manager_demo =
      py_print fix3_message (write_text manager_path adapter_new manager_demo)"
    by (simp add: fix_special_cases_def 1 2 demo_replace)
  then show ?thesis
    by (simp add: py_print_def write_text_def manager_demo_def one_file_def)
qed

lemma demo_second_run:
  "fix_special_cases (fix_special_cases manager_demo) =
     \<lparr>files = [manager_path \<mapsto> adapter_new],
      writes = [(manager_path, adapter_new), (manager_path, adapter_new)],
      console = [fix3_message, fix3_message]\<rparr>"
proof -
  define w1 where "w1 = fix_special_cases manager_demo"
  have w1: "w1 = \<lparr>files = [manager_path \<mapsto> adapter_new],
      writes = [(manager_path, adapter_new)], console = [fix3_message]\<rparr>"
    by (simp add: w1_def demo_first_run)
  have "\<not> sublist ''import type { IExchangeAdapter'' adapter_new" by code_simp
  moreover have u: "universal_newlines adapter_new = adapter_new" by code_simp
  ultimately have 1: "fix1 w1 = w1"
    by (simp add: fix1_def w1 read_text_def)
  have 2: "fix2 w1 = w1"
    using paths_differ by (simp add: fix2_def w1 read_text_def)
  have "read_text manager_path w1 = Some adapter_new"
    using u by (simp add: w1 read_text_def)
  moreover have "str_replace adapter_old adapter_new adapter_new = adapter_new" by code_simp
  ultimately have "fix3 w1 = py_print fix3_message (write_text manager_path adapter_new w1)"
    using fix3_applied [of w1 adapter_new] call_in_adapter_new by simp
  then have "fix_special_cases w1 = py_print fix3_message (write_text manager_path adapter_new w1)"
    by (simp add: fix_special_cases_def 1 2)
  then have "fix_special_cases w1 = \<lparr>files = [manager_path \<mapsto> adapter_new],
      writes = [(manager_path, adapter_new), (manager_path, adapter_new)],
      console = [fix3_message, fix3_message]\<rparr>"
    by (simp add: w1 py_print_def write_text_def)
  then show ?thesis by (simp add: w1_def)
qed

text \<open>
  Fix 1 has the same weakness when the types import of the manager is not the exact line
  it replaces: its guard holds, \<^verbatim>\<open>replace\<close> finds nothing, the file is written with
  the content it had and the message is printed, on the first run and on every later one.
\<close>

lemma short_import_guard:
  "sublist ''import type { IExchangeAdapter'' ''import type { IExchangeAdapter } from './types';''
   \<and> \<not> sublist ''ConnectionConfig, ExchangeId'' ''import type { IExchangeAdapter } from './types';''
   \<and> str_replace types_import_old types_import_new ''import type { IExchangeAdapter } from './types';''
       = ''import type { IExchangeAdapter } from './types';''"
  by code_simp

lemma fix1_reentered:
  "fix1 (one_file manager_path ''import type { IExchangeAdapter } from './types';'') =
     \<lparr>files = [manager_path \<mapsto> ''import type { IExchangeAdapter } from './types';''],
      writes = [(manager_path, ''import type { IExchangeAdapter } from './types';'')],
      console = [''  '' @ check_mark
                 @ '' Added ConnectionConfig and ExchangeId to market-data-websocket-manager.ts types import'']\<rparr>
   \<and> fix1 (fix1 (one_file manager_path ''import type { IExchangeAdapter } from './types';'')) =
     \<lparr>files = [manager_path \<mapsto> ''import type { IExchangeAdapter } from './types';''],
      writes = [(manager_path, ''import type { IExchangeAdapter } from './types';''),
                (manager_path, ''import type { IExchangeAdapter } from './types';'')],
      console = [''  '' @ check_mark
                 @ '' Added ConnectionConfig and ExchangeId to market-data-websocket-manager.ts types import'',
                 ''  '' @ check_mark
                 @ '' Added ConnectionConfig and ExchangeId to market-data-websocket-manager.ts types import'']\<rparr>"
proof -
  have b: "basename manager_path = ''market-data-websocket-manager.ts''" by code_simp
  define w1 where "w1 = fix1 (one_file manager_path ''import type { IExchangeAdapter } from './types';'')"
  have 1: "w1 =
     \<lparr>files = [manager_path \<mapsto> ''import type { IExchangeAdapter } from './types';''],
      writes = [(manager_path, ''import type { IExchangeAdapter } from './types';'')],
      console = [''  '' @ check_mark
                 @ '' Added ConnectionConfig and ExchangeId to market-data-websocket-manager.ts types import'']\<rparr>"
    unfolding w1_def using short_import_guard
    by (simp add: fix1_def one_file_def read_text_def write_text_def py_print_def b)
  have "fix1 w1 =
     \<lparr>files = [manager_path \<mapsto> ''import type { IExchangeAdapter } from './types';''],
      writes = [(manager_path, ''import type { IExchangeAdapter } from './types';''),
                (manager_path, ''import type { IExchangeAdapter } from './types';'')],
      console = [''  '' @ check_mark
                 @ '' Added ConnectionConfig and ExchangeId to market-data-websocket-manager.ts types import'',
                 ''  '' @ check_mark
                 @ '' Added ConnectionConfig and ExchangeId to market-data-websocket-manager.ts types import'']\<rparr>"
    using short_import_guard
    by (simp add: 1 fix1_def read_text_def write_text_def py_print_def b)
  with 1 show ?thesis by (simp add: w1_def)
qed

text \<open>
  C4 (the code departs from it). C4 says that a second run of \<^verbatim>\<open>fix_special_cases\<close>
  after a successful first run changes nothing because the guard of each fix is false the
  second time. Fix 1 and Fix 2 test for what they insert, Fix 3 does not: its guard is the
  presence of \<^verbatim>\<open>return createWebSocketAdapter(exchangeId, config);\<close>, and the text it
  writes holds that call in a comment. So after a first run that applied Fix 3 to the
  manager file, the guard of Fix 3 is true on the second run: the branch is entered,
  \<^verbatim>\<open>replace\<close> finds nothing, the file is written again and the message
  printed again.
\<close>

theorem fix3_guard_still_true:
  "read_text manager_path (fix_special_cases manager_demo) = Some adapter_new
   \<and> sublist adapter_call adapter_new
   \<and> writes (fix_special_cases (fix_special_cases manager_demo)) =
       writes (fix_special_cases manager_demo) @ [(manager_path, adapter_new)]
   \<and> console (fix_special_cases (fix_special_cases manager_demo)) =
       console (fix_special_cases manager_demo) @ [fix3_message]"
proof -
  have "universal_newlines adapter_new = adapter_new" by code_simp
  then have "read_text manager_path (fix_special_cases manager_demo) = Some adapter_new"
    by (simp add: demo_first_run read_text_def)
  moreover have "writes (fix_special_cases (fix_special_cases manager_demo)) =
      [(manager_path, adapter_new), (manager_path, adapter_new)]"
    and "console (fix_special_cases (fix_special_cases manager_demo)) =
      [fix3_message, fix3_message]"
    by (simp_all add: demo_second_run)
  moreover have "writes (fix_special_cases manager_demo) = [(manager_path, adapter_new)]"
    and "console (fix_special_cases manager_demo) = [fix3_message]"
    by (simp_all add: demo_first_run)
  ultimately show ?thesis
    using call_in_adapter_new by simp
qed

text \<open>
  What a second run does keep: the content of every file is what the first run left,
  whatever the files were; and a pipeline file that already holds
  \<^verbatim>\<open>function getDefaultWebSocketConfig\<close> is left alone by Fix 2 (no stub is inserted,
  nothing is written), whether or not the commented import marker is in it.
\<close>

theorem fix_special_cases_twice:
  "files (fix_special_cases (fix_special_cases w)) = files (fix_special_cases w)
   \<and> (\<forall>content. read_text pipeline_path w = Some content
         \<and> sublist ''function getDefaultWebSocketConfig'' content \<longrightarrow> fix2 w = w)"
  by (simp add: files_fix_special_cases special_files_idem fix2_guarded)

theorem fix_special_cases_twice_witness:
  "files (fix_special_cases (fix_special_cases (one_file pipeline_path stub_text)))
     = files (fix_special_cases (one_file pipeline_path stub_text))
   \<and> read_text pipeline_path (one_file pipeline_path stub_text) = Some stub_text
   \<and> sublist stub_marker stub_text
   \<and> sublist ''function getDefaultWebSocketConfig'' stub_text
   \<and> fix2 (one_file pipeline_path stub_text) = one_file pipeline_path stub_text"
proof -
  have u: "universal_newlines stub_text = stub_text" by code_simp
  then have r: "read_text pipeline_path (one_file pipeline_path stub_text) = Some stub_text"
    by (simp add: read_text_def one_file_def)
  have m: "sublist stub_marker stub_text" by code_simp
  from fix_special_cases_twice [of "one_file pipeline_path stub_text"] r function_in_stub m
  show ?thesis by blast
qed

text \<open>
  C9. Once Fix 3 has replaced the call, its guard text
  \<^verbatim>\<open>return createWebSocketAdapter(exchangeId, config);\<close> is still in the file, inside the
  commented line \<^verbatim>\<open>// return createWebSocketAdapter(exchangeId, config);\<close>, and the text
  it replaces is gone. On every later run of \<^verbatim>\<open>fix_special_cases\<close> the branch of Fix 3 is
  entered again: the content of every file stays what it was, and Fix 3 writes the
  manager file once more with the same content and prints its message once more.
\<close>

theorem patch_c_reentered:
  assumes "read_text manager_path (fix2 (fix1 w)) = Some c" and "sublist adapter_old c"
  shows "files (fix_special_cases w) manager_path = Some (str_replace adapter_old adapter_new c)
    \<and> sublist ''// return createWebSocketAdapter(exchangeId, config);''
         (str_replace adapter_old adapter_new c)
    \<and> sublist adapter_call (str_replace adapter_old adapter_new c)
    \<and> \<not> sublist adapter_old (str_replace adapter_old adapter_new c)
    \<and> (\<forall>n. let v = (fix_special_cases ^^ n) (fix_special_cases w) in
          files (fix_special_cases v) = files (fix_special_cases w)
          \<and> writes (fix_special_cases v) =
              writes (fix2 (fix1 v)) @ [(manager_path, str_replace adapter_old adapter_new c)]
          \<and> console (fix_special_cases v) = console (fix2 (fix1 v)) @ [fix3_message])"
proof -
  define c1 where "c1 = str_replace adapter_old adapter_new c"
  from assms(2) call_in_adapter_old have call: "sublist adapter_call c"
    using sublist_trans by blast
  have first: "fix_special_cases w = py_print fix3_message (write_text manager_path c1 (fix2 (fix1 w)))"
    using fix3_applied [OF assms(1) call] by (simp add: fix_special_cases_def c1_def)
  then have file1: "files (fix_special_cases w) manager_path = Some c1"
    by (simp add: py_print_def write_text_def)
  have new_in: "sublist adapter_new c1"
    unfolding c1_def using assms(2) by (intro str_replace_has_new) simp_all
  have commented: "sublist ''// return createWebSocketAdapter(exchangeId, config);'' c1"
    using commented_call_in_adapter_new new_in by (rule sublist_trans)
  have call1: "sublist adapter_call c1"
    using call_in_adapter_new new_in by (rule sublist_trans)
  have no_old: "\<not> sublist adapter_old c1"
    unfolding c1_def by (intro str_replace_no_old adapter_apart1 adapter_apart2) simp
  have clean: "CHR 0x0D \<notin> set c1"
    unfolding c1_def using read_text_no_cr [OF assms(1)] by (simp add: str_replace_no_cr)
  from file1 obtain raw0 where raw0: "files w manager_path = Some raw0"
    and c1_raw: "c1 = raw_fix3 (raw_fix1 raw0)"
    using paths_differ by (auto simp: files_fix_special_cases special_files_def)
  have stable1: "raw_fix1 c1 = c1"
    using manager_stable [of raw0] by (simp add: c1_raw)
  have later: "files (fix_special_cases v) = files (fix_special_cases w)
        \<and> writes (fix_special_cases v) = writes (fix2 (fix1 v)) @ [(manager_path, c1)]
        \<and> console (fix_special_cases v) = console (fix2 (fix1 v)) @ [fix3_message]"
    if v: "v = (fix_special_cases ^^ n) (fix_special_cases w)" for v n
  proof -
    have fv: "files v = files (fix_special_cases w)"
      unfolding v by (rule files_funpow)
    have "files (fix_special_cases v) = special_files (files (fix_special_cases w))"
      by (simp add: files_fix_special_cases fv)
    then have a: "files (fix_special_cases v) = files (fix_special_cases w)"
      by (simp add: files_fix_special_cases special_files_idem)
    have "files (fix2 (fix1 v)) manager_path = Some c1"
      using paths_differ by (simp add: files_fix2 files_fix1 fv file1 stable1)
    then have "read_text manager_path (fix2 (fix1 v)) = Some c1"
      using clean by (simp add: read_text_def universal_newlines_id)
    from fix3_applied [OF this call1]
    have "fix_special_cases v = py_print fix3_message (write_text manager_path c1 (fix2 (fix1 v)))"
      using no_old by (simp add: fix_special_cases_def str_replace_id)
    then have "writes (fix_special_cases v) = writes (fix2 (fix1 v)) @ [(manager_path, c1)]"
      and "console (fix_special_cases v) = console (fix2 (fix1 v)) @ [fix3_message]"
      by (simp_all add: py_print_def write_text_def)
    with a show ?thesis by simp
  qed
  show ?thesis
    using file1 commented call1 no_old later unfolding c1_def [symmetric] Let_def by blast
qed

theorem patch_c_reentered_witness:
  "read_text manager_path (fix2 (fix1 manager_demo)) = Some adapter_old
   \<and> sublist adapter_old adapter_old
   \<and> files (fix_special_cases manager_demo) manager_path = Some adapter_new
   \<and> sublist ''// return createWebSocketAdapter(exchangeId, config);'' adapter_new
   \<and> sublist adapter_call adapter_new
   \<and> \<not> sublist adapter_old adapter_new
   \<and> (\<forall>n. files (fix_special_cases ((fix_special_cases ^^ n) (fix_special_cases manager_demo)))
            = files (fix_special_cases manager_demo)
          \<and> writes (fix_special_cases ((fix_special_cases ^^ n) (fix_special_cases manager_demo))) =
              writes (fix2 (fix1 ((fix_special_cases ^^ n) (fix_special_cases manager_demo))))
              @ [(manager_path, adapter_new)]
          \<and> console (fix_special_cases ((fix_special_cases ^^ n) (fix_special_cases manager_demo))) =
              console (fix2 (fix1 ((fix_special_cases ^^ n) (fix_special_cases manager_demo))))
              @ [fix3_message])"
  using patch_c_reentered [OF demo_read, simplified demo_replace Let_def] demo_read
  by simp

section \<open>Properties of \<^verbatim>\<open>main\<close>\<close>

lemma fix_file_fst: "fst (fix_file p w) = needs_fix (files w) p"
  by (cases "files w p")
     (simp_all add: fix_file_def read_text_def needs_fix_def py_print_def Let_def)

lemma fix_file_console: "console (snd (fix_file p w)) = console w @ report (files w) p"
  by (cases "files w p")
     (simp_all add: fix_file_def read_text_def needs_fix_def report_def py_print_def
        write_text_def Let_def)

lemma fix_file_frame:
  "q \<noteq> p \<Longrightarrow> q \<noteq> p @ ''.bak'' \<Longrightarrow> files (snd (fix_file p w)) q = files w q"
  by (cases "files w p")
     (simp_all add: fix_file_def read_text_def py_print_def write_text_def Let_def)

lemma needs_fix_cong: "fs q = fs' q \<Longrightarrow> needs_fix fs q = needs_fix fs' q"
  by (simp add: needs_fix_def)

lemma report_cong: "fs q = fs' q \<Longrightarrow> report fs q = report fs' q"
  by (simp add: report_def needs_fix_def)

lemma fix_all_Cons:
  "fix_all (p # ps) n w =
     fix_all ps (if fst (fix_file p w) then n + 1 else n) (snd (fix_file p w))"
  by (cases "fix_file p w") (simp split: bool.splits)

lemma fix_all_result:
  assumes "distinct ps" and "\<forall>p \<in> set ps. \<forall>q \<in> set ps. q \<noteq> p @ ''.bak''"
  shows "fst (fix_all ps n w) = n + length (filter (needs_fix (files w)) ps)
       \<and> console (snd (fix_all ps n w)) = console w @ concat (map (report (files w)) ps)"
  using assms
proof (induction ps arbitrary: n w)
  case Nil
  then show ?case by simp
next
  case (Cons p ps)
  define w1 where "w1 = snd (fix_file p w)"
  define n1 where "n1 = (if needs_fix (files w) p then n + 1 else n)"
  have same: "files w1 q = files w q" if "q \<in> set ps" for q
  proof -
    from that Cons.prems have "q \<noteq> p" "q \<noteq> p @ ''.bak''" by auto
    then show ?thesis unfolding w1_def by (rule fix_file_frame)
  qed
  have f: "filter (needs_fix (files w1)) ps = filter (needs_fix (files w)) ps"
    by (intro filter_cong refl needs_fix_cong same)
  have r: "map (report (files w1)) ps = map (report (files w)) ps"
    by (intro map_cong refl report_cong same)
  from Cons.prems have "distinct ps" "\<forall>p \<in> set ps. \<forall>q \<in> set ps. q \<noteq> p @ ''.bak''"
    by simp_all
  from Cons.IH [OF this, of n1 w1]
  have IH: "fst (fix_all ps n1 w1) = n1 + length (filter (needs_fix (files w)) ps)"
    "console (snd (fix_all ps n1 w1)) = console w1 @ concat (map (report (files w)) ps)"
    by (simp_all add: f r)
  have step: "fix_all (p # ps) n w = fix_all ps n1 w1"
    by (simp only: fix_all_Cons fix_file_fst n1_def w1_def)
  have c1: "console w1 = console w @ report (files w) p"
    unfolding w1_def by (rule fix_file_console)
  show ?case
    unfolding step using IH c1 by (simp add: n1_def)
qed

lemma files_distinct: "distinct FILES_TO_FIX"
  by (simp add: FILES_TO_FIX_def)

lemma files_ts: "list_all (\<lambda>q. last q = CHR ''s'') FILES_TO_FIX"
  by (simp add: FILES_TO_FIX_def)

lemma files_no_bak: "\<forall>p \<in> set FILES_TO_FIX. \<forall>q \<in> set FILES_TO_FIX. q \<noteq> p @ ''.bak''"
proof (intro ballI notI)
  fix p q assume "q \<in> set FILES_TO_FIX" "q = p @ ''.bak''"
  with files_ts have "last (p @ ''.bak'') = CHR ''s''" by (auto simp: list_all_iff)
  then show False by simp
qed

text \<open>
  C8. \<^verbatim>\<open>main\<close> prints its banner and runs \<^verbatim>\<open>fix_file\<close> over the fixed list in order:
  the console then holds, for every path of the list in order, the two lines of that file
  (found or not, fixed or not), so a missing file is reported and the loop goes on. The
  counter ends as the number of listed files for which \<^verbatim>\<open>fix_file\<close> returned
  \<^verbatim>\<open>True\<close>, each judged on the content it had before the run. Then
  \<^verbatim>\<open>fix_special_cases\<close> runs, and the summary with that counter is printed last.
\<close>

theorem main_run:
  "\<exists>w2. fix_all FILES_TO_FIX 0
           (py_print [] (py_print rule_line
             (py_print ''Fixing exchanges module imports'' (py_print rule_line w))))
         = (length (filter (needs_fix (files w)) FILES_TO_FIX), w2)
       \<and> console w2 =
           console w @ [rule_line, ''Fixing exchanges module imports'', rule_line, []]
           @ concat (map (report (files w)) FILES_TO_FIX)
       \<and> main w =
           py_print rule_line
             (py_print ''Backup files created with .bak extension''
               (py_print (check_mark @ '' Fixed ''
                          @ str_nat (length (filter (needs_fix (files w)) FILES_TO_FIX))
                          @ '' files'')
                 (py_print rule_line
                   (py_print []
                     (fix_special_cases
                       (py_print ''Fixing special cases...'' (py_print [] w2)))))))"
proof -
  define w1 where "w1 = py_print [] (py_print rule_line
             (py_print ''Fixing exchanges module imports'' (py_print rule_line w)))"
  define k where "k = length (filter (needs_fix (files w)) FILES_TO_FIX)"
  define w2 where "w2 = snd (fix_all FILES_TO_FIX 0 w1)"
  have fw1: "files w1 = files w"
    and cw1: "console w1 = console w @ [rule_line, ''Fixing exchanges module imports'', rule_line, []]"
    by (simp_all add: w1_def py_print_def)
  from fix_all_result [OF files_distinct files_no_bak, of 0 w1]
  have "fst (fix_all FILES_TO_FIX 0 w1) = k"
    and c2: "console w2 = console w1 @ concat (map (report (files w)) FILES_TO_FIX)"
    by (simp_all add: fw1 k_def w2_def)
  then have loop: "fix_all FILES_TO_FIX 0 w1 = (k, w2)"
    by (simp add: w2_def prod_eq_iff)
  have "main w =
           py_print rule_line
             (py_print ''Backup files created with .bak extension''
               (py_print (check_mark @ '' Fixed '' @ str_nat k @ '' files'')
                 (py_print rule_line
                   (py_print []
                     (fix_special_cases
                       (py_print ''Fixing special cases...'' (py_print [] w2)))))))"
    unfolding main_def w1_def [symmetric] loop Let_def prod.case ..
  with loop c2 cw1 show ?thesis
    unfolding w1_def [symmetric] k_def [symmetric] by (intro exI [of _ w2]) simp
qed

end
